theory Spec2Isabelle
  imports Complex_Main
begin

section \<open>Text primitives\<close>

text \<open>
  A line is the text that \<^verbatim>\<open>ser.readline().decode('utf-8', errors='replace')\<close> returns. It is
  modelled as a \<open>string\<close>, one \<open>char\<close> per code point below 256. \<open>is_space\<close> is Python's
  \<^verbatim>\<open>str.isspace\<close> on that range; it is the set of characters that \<^verbatim>\<open>strip()\<close> removes and at
  which \<^verbatim>\<open>split()\<close> cuts.
\<close>

definition is_space :: "char \<Rightarrow> bool" where
  "is_space c \<longleftrightarrow>
     c \<in> set [CHR 0x09, CHR 0x0A, CHR 0x0B, CHR 0x0C, CHR 0x0D, CHR 0x1C, CHR 0x1D, CHR 0x1E,
              CHR 0x1F, CHR 0x20, CHR 0x85, CHR 0xA0]"

definition strip :: "string \<Rightarrow> string" where
  "strip s = rev (dropWhile is_space (rev (dropWhile is_space s)))"

definition startswith :: "string \<Rightarrow> string \<Rightarrow> bool" where
  "startswith s p \<longleftrightarrow> take (length p) s = p"

text \<open>\<^verbatim>\<open>s.split(c)\<close>: the fields between the occurrences of \<open>c\<close>; there is always one.\<close>

fun split_on :: "char \<Rightarrow> string \<Rightarrow> string list" where
  "split_on c [] = [[]]"
| "split_on c (x # xs) =
     (if x = c then [] # split_on c xs
      else (case split_on c xs of [] \<Rightarrow> [[x]] | f # fs \<Rightarrow> (x # f) # fs))"

text \<open>\<^verbatim>\<open>s.split()\<close>: the maximal runs of characters that are not white space.\<close>

function split_ws :: "string \<Rightarrow> string list" where
  "split_ws s =
     (case dropWhile is_space s of
        [] \<Rightarrow> []
      | x # xs \<Rightarrow> takeWhile (\<lambda>c. \<not> is_space c) (x # xs)
                 # split_ws (dropWhile (\<lambda>c. \<not> is_space c) (x # xs)))"
  by pat_completeness auto
termination
proof (relation "measure length")
  fix s :: string and x xs
  assume "dropWhile is_space s = x # xs"
  then have "length (x # xs) \<le> length s" and "\<not> is_space x"
    using length_dropWhile_le [of is_space s] hd_dropWhile [of is_space s] by auto
  moreover have "length (dropWhile (\<lambda>c. \<not> is_space c) xs) \<le> length xs"
    by (rule length_dropWhile_le)
  ultimately show "(dropWhile (\<lambda>c. \<not> is_space c) (x # xs), s) \<in> measure length"
    by simp
qed simp

declare split_ws.simps [simp del]

section \<open>Numbers\<close>

text \<open>Decimal rendering of an integer, \<^verbatim>\<open>str(n)\<close>.\<close>

definition digit_char :: "nat \<Rightarrow> char" where
  "digit_char n = ''0123456789'' ! (n mod 10)"

function str_nat :: "nat \<Rightarrow> string" where
  "str_nat n = (if n < 10 then [digit_char n] else str_nat (n div 10) @ [digit_char (n mod 10)])"
  by pat_completeness auto
termination
  by (relation "measure id") auto

declare str_nat.simps [simp del]

definition str_int :: "int \<Rightarrow> string" where
  "str_int i = (if i < 0 then CHR ''-'' # str_nat (nat (- i)) else str_nat (nat i))"

text \<open>
  The white space that \<^verbatim>\<open>int\<close> and \<^verbatim>\<open>float\<close> skip around a number is not all of
  \<^verbatim>\<open>str.isspace\<close>: on the four separators U+001C to U+001F, which \<^verbatim>\<open>strip()\<close> removes, both
  conversions raise.
\<close>

definition num_space :: "char \<Rightarrow> bool" where
  "num_space c \<longleftrightarrow>
     c \<in> set [CHR 0x09, CHR 0x0A, CHR 0x0B, CHR 0x0C, CHR 0x0D, CHR 0x20, CHR 0x85, CHR 0xA0]"

definition num_strip :: "string \<Rightarrow> string" where
  "num_strip s = rev (dropWhile num_space (rev (dropWhile num_space s)))"

text \<open>
  \<^verbatim>\<open>int(s)\<close> on text: that white space around, an optional sign, decimal digits, single
  underscores between digits; \<open>None\<close> when it raises.
\<close>

definition digit_val :: "char \<Rightarrow> int option" where
  "digit_val c = map_of (zip ''0123456789'' [0, 1, 2, 3, 4, 5, 6, 7, 8, 9]) c"

fun int_of_digits :: "int \<Rightarrow> string \<Rightarrow> int option" where
  "int_of_digits acc [] = Some acc"
| "int_of_digits acc (c # cs) =
     (case digit_val c of None \<Rightarrow> None | Some v \<Rightarrow> int_of_digits (10 * acc + v) cs)"

definition int_of_text :: "string \<Rightarrow> int option" where
  "int_of_text s =
     (let t = num_strip s;
          neg = startswith t ''-'';
          u = (if neg \<or> startswith t ''+'' then tl t else t);
          groups = split_on CHR ''_'' u
      in if [] \<in> set groups then None
         else (case int_of_digits 0 (concat groups) of
                 None \<Rightarrow> None
               | Some n \<Rightarrow> Some (if neg then - n else n)))"

text \<open>
  A Python float is an IEEE double: a finite value (a rational; \<open>Finite 0\<close> is \<open>0.0\<close>), the
  negative zero, an infinity, or a NaN. The comparisons are Python's: the two zeros are equal,
  and every comparison with a NaN is false except \<^verbatim>\<open>!=\<close>.
\<close>

datatype pyfloat = Finite rat | NegZero | PosInf | NegInf | NaN

fun fkey :: "pyfloat \<Rightarrow> (int \<times> rat) option" where
  "fkey (Finite q) = Some (0, q)"
| "fkey NegZero = Some (0, 0)"
| "fkey PosInf = Some (1, 0)"
| "fkey NegInf = Some (- 1, 0)"
| "fkey NaN = None"

definition feq :: "pyfloat \<Rightarrow> pyfloat \<Rightarrow> bool" where
  "feq a b = (case (fkey a, fkey b) of (Some x, Some y) \<Rightarrow> x = y | _ \<Rightarrow> False)"

definition fne :: "pyfloat \<Rightarrow> pyfloat \<Rightarrow> bool" where
  "fne a b = (\<not> feq a b)"

definition flt :: "pyfloat \<Rightarrow> pyfloat \<Rightarrow> bool" where
  "flt a b =
     (case (fkey a, fkey b) of
        (Some (c, v), Some (c', v')) \<Rightarrow> c < c' \<or> (c = c' \<and> v < v')
      | _ \<Rightarrow> False)"

definition fle :: "pyfloat \<Rightarrow> pyfloat \<Rightarrow> bool" where
  "fle a b = (flt a b \<or> feq a b)"

definition fgt :: "pyfloat \<Rightarrow> pyfloat \<Rightarrow> bool" where
  "fgt a b = flt b a"

text \<open>\<^verbatim>\<open>int(x)\<close> of a float truncates towards zero and raises on an infinity or a NaN.\<close>

fun py_int :: "pyfloat \<Rightarrow> int option" where
  "py_int (Finite q) = Some (if q < 0 then - \<lfloor>- q\<rfloor> else \<lfloor>q\<rfloor>)"
| "py_int NegZero = Some 0"
| "py_int PosInf = None"
| "py_int NegInf = None"
| "py_int NaN = None"

text \<open>
  \<^verbatim>\<open>f"{x:.2f}"\<close>: the exact value rounded to two decimals, ties to the even neighbour; a
  negative value keeps its sign even when it rounds to zero.
\<close>

definition round_half_even :: "rat \<Rightarrow> int" where
  "round_half_even a =
     (let f = \<lfloor>a\<rfloor>; r = a - of_int f
      in if r < 1 / 2 then f else if 1 / 2 < r then f + 1 else if even f then f else f + 1)"

definition pad2 :: "nat \<Rightarrow> string" where
  "pad2 n = (if n < 10 then CHR ''0'' # str_nat n else str_nat n)"

definition fmt_hundredths :: "nat \<Rightarrow> string" where
  "fmt_hundredths n = str_nat (n div 100) @ ''.'' @ pad2 (n mod 100)"

fun fmt2 :: "pyfloat \<Rightarrow> string" where
  "fmt2 (Finite q) =
     (if q < 0 then ''-'' else []) @ fmt_hundredths (nat (round_half_even (\<bar>q\<bar> * 100)))"
| "fmt2 NegZero = ''-0.00''"
| "fmt2 PosInf = ''inf''"
| "fmt2 NegInf = ''-inf''"
| "fmt2 NaN = ''nan''"

section \<open>Wall clock and paths\<close>

text \<open>A reading of \<^verbatim>\<open>datetime.now()\<close>, to the second, and its two renderings.\<close>

record datetime =
  year :: nat
  month :: nat
  day :: nat
  hour :: nat
  minute :: nat
  second :: nat

definition strftime_row :: "datetime \<Rightarrow> string" where
  \<comment> \<open>\<^verbatim>\<open>"%Y-%m-%d %H:%M:%S"\<close>\<close>
  "strftime_row t =
     str_nat (year t) @ ''-'' @ pad2 (month t) @ ''-'' @ pad2 (day t) @ '' ''
       @ pad2 (hour t) @ '':'' @ pad2 (minute t) @ '':'' @ pad2 (second t)"

definition strftime_file :: "datetime \<Rightarrow> string" where
  \<comment> \<open>\<^verbatim>\<open>"%Y-%m-%d_%H-%M-%S"\<close>\<close>
  "strftime_file t =
     str_nat (year t) @ ''-'' @ pad2 (month t) @ ''-'' @ pad2 (day t) @ ''_''
       @ pad2 (hour t) @ ''-'' @ pad2 (minute t) @ ''-'' @ pad2 (second t)"

text \<open>\<^verbatim>\<open>os.path.join(a, b)\<close> for two components (POSIX).\<close>

definition path_join :: "string \<Rightarrow> string \<Rightarrow> string" where
  "path_join a b =
     (if startswith b ''/'' then b
      else if a = [] \<or> last a = CHR ''/'' then a @ b
      else a @ ''/'' @ b)"

text \<open>The log file of a session: lines 187-188 and 194-195 of the logger.\<close>

definition session_path :: "string \<Rightarrow> pyfloat \<Rightarrow> datetime \<Rightarrow> string" where
  "session_path dir d t =
     path_join dir (''lora_data_'' @ fmt2 d @ ''m_'' @ strftime_file t @ ''.csv'')"

section \<open>Rows\<close>

text \<open>The dictionary over \<^verbatim>\<open>CSV_HEADERS\<close> that is handed to \<^verbatim>\<open>log_data\<close>.\<close>

record row =
  Timestamp :: string
  Event :: string
  MessageNumber :: string
  Distance_m :: string
  Received :: string
  Lost :: string
  RSSI :: string
  SNR :: string
  TotalPackets :: string
  LossRate :: string

text \<open>What the program prints, one constructor for each message, and the calls of the sink.\<close>

datatype diag =
    Raw string
  | IgnoringLargeGap
  | LostLineError
  | NoCsvLogYet
  | IncompleteData string
  | DistanceError
  | TransientZero int
  | NewSession pyfloat string
  | LowerValue pyfloat pyfloat
  | NewDistance pyfloat string

datatype effect = Print diag | LogData row string

text \<open>
  \<^verbatim>\<open>process_data_line\<close>. \<open>t\<close> is the reading of the clock taken for the row; it is taken only
  when the line has its ten fields. Nothing in the \<^verbatim>\<open>try\<close> block can raise then, so the
  handler of line 57 is never entered. \<open>data_row\<close> is the dictionary of lines 41-52 and
  \<open>fix_total\<close> the substitution of lines 53-55.
\<close>

definition data_row :: "datetime \<Rightarrow> string list \<Rightarrow> row" where
  "data_row t parts =
     \<lparr>Timestamp = strftime_row t, Event = ''DATA'', MessageNumber = parts ! 2,
      Distance_m = parts ! 3, Received = parts ! 4, Lost = parts ! 5, RSSI = parts ! 6,
      SNR = parts ! 7, TotalPackets = parts ! 8, LossRate = strip (parts ! 9)\<rparr>"

definition fix_total :: "row \<Rightarrow> row" where
  "fix_total data =
     (if strip (TotalPackets data) = ''0'' then data\<lparr>TotalPackets := Received data\<rparr> else data)"

definition process_data_line :: "datetime \<Rightarrow> string \<Rightarrow> diag + row" where
  "process_data_line t line =
     (let parts = split_on CHR '','' line in
      if length parts < 10 then Inl (IncompleteData line)
      else Inr (fix_total (data_row t parts)))"

text \<open>
  \<^verbatim>\<open>process_lost_line\<close>. \<^verbatim>\<open>parts[-1]\<close> raises on a line without any token; the handler prints
  and returns \<^verbatim>\<open>None\<close>, before the clock is read.
\<close>

definition lost_row :: "datetime \<Rightarrow> string \<Rightarrow> row" where
  "lost_row t lost_packet =
     \<lparr>Timestamp = strftime_row t, Event = ''LOST'', MessageNumber = lost_packet,
      Distance_m = [], Received = [], Lost = [], RSSI = [], SNR = [], TotalPackets = [],
      LossRate = []\<rparr>"

definition process_lost_line :: "datetime \<Rightarrow> string \<Rightarrow> diag + row" where
  "process_lost_line t line =
     (let parts = split_ws line in
      if parts = [] then Inl LostLineError else Inr (lost_row t (last parts)))"

section \<open>The read loop\<close>

text \<open>
  The three variables of \<^verbatim>\<open>main\<close> that the loop updates, and the number of readings of the
  clock taken so far. The environment of a run is the log directory, Python's \<^verbatim>\<open>float\<close> on
  text (\<open>None\<close> when it raises), and the wall clock: \<open>clock env k\<close> is what the \<open>k\<close>-th call of
  \<^verbatim>\<open>datetime.now()\<close> returns. Nothing is assumed of the clock or of \<^verbatim>\<open>float\<close>.
\<close>

record loop_state =
  current_csv_log :: "string option"
  last_distance :: "pyfloat option"
  last_lost :: "int option"
  clock_reads :: nat

record env =
  log_dir :: string
  py_float :: "string \<Rightarrow> pyfloat option"
  clock :: "nat \<Rightarrow> datetime"

definition init_state :: loop_state where
  "init_state = \<lparr>current_csv_log = None, last_distance = None, last_lost = None, clock_reads = 0\<rparr>"

definition datetime_now :: "env \<Rightarrow> loop_state \<Rightarrow> datetime" where
  "datetime_now env st = clock env (clock_reads st)"

definition tick :: "loop_state \<Rightarrow> loop_state" where
  "tick st = st\<lparr>clock_reads := Suc (clock_reads st)\<rparr>"

text \<open>\<^verbatim>\<open>if current_csv_log: log_data(data, current_csv_log)\<close>; the empty text is false too.\<close>

definition log_if_open :: "string option \<Rightarrow> row \<Rightarrow> effect list" where
  "log_if_open csv data =
     (case csv of None \<Rightarrow> [] | Some p \<Rightarrow> if p = [] then [] else [LogData data p])"

text \<open>Lines 150-156: a line that starts with \<^verbatim>\<open>LOST:\<close>.\<close>

definition handle_lost :: "env \<Rightarrow> loop_state \<Rightarrow> string \<Rightarrow> loop_state \<times> effect list" where
  "handle_lost env st line =
     (case process_lost_line (datetime_now env st) line of
        Inl d \<Rightarrow> (st, [Print d, Print NoCsvLogYet])
      | Inr lost_data \<Rightarrow>
          (tick st,
           if log_if_open (current_csv_log st) lost_data = [] then [Print NoCsvLogYet]
           else log_if_open (current_csv_log st) lost_data))"

text \<open>\<^verbatim>\<open>int(float(data["Lost"]))\<close>, and 0 when either conversion raises (lines 176-179).\<close>

definition parse_lost :: "env \<Rightarrow> string \<Rightarrow> int" where
  "parse_lost env s =
     (case py_float env s of
        None \<Rightarrow> 0
      | Some f \<Rightarrow> (case py_int f of None \<Rightarrow> 0 | Some n \<Rightarrow> n))"

text \<open>Line 171: a zero after a last distance that is not zero.\<close>

definition transient_zero :: "pyfloat option \<Rightarrow> pyfloat \<Rightarrow> bool" where
  "transient_zero prev cur =
     (case prev of None \<Rightarrow> False | Some l \<Rightarrow> feq cur (Finite 0) \<and> fne l (Finite 0))"

text \<open>Lines 171-180: the row keeps its lost count, or gets the last valid one.\<close>

definition carry_lost :: "env \<Rightarrow> loop_state \<Rightarrow> row \<Rightarrow> pyfloat \<Rightarrow> row \<times> loop_state \<times> effect list" where
  "carry_lost env st data current_distance =
     (if transient_zero (last_distance st) current_distance then
        (let n = (case last_lost st of None \<Rightarrow> 0 | Some l \<Rightarrow> l)
         in (data\<lparr>Lost := str_int n\<rparr>, st, [Print (TransientZero n)]))
      else (data, st\<lparr>last_lost := Some (parse_lost env (Lost data))\<rparr>, []))"

text \<open>Lines 185-196: which log file the row goes to.\<close>

definition select_session :: "env \<Rightarrow> loop_state \<Rightarrow> pyfloat \<Rightarrow> loop_state \<times> effect list" where
  "select_session env st current_distance =
     (case last_distance st of
        None \<Rightarrow>
          (let p = session_path (log_dir env) current_distance (datetime_now env st)
           in (tick (st\<lparr>last_distance := Some current_distance, current_csv_log := Some p\<rparr>),
               [Print (NewSession current_distance p)]))
      | Some l \<Rightarrow>
          if fle current_distance l \<and> fne current_distance l then
            (st, [Print (LowerValue current_distance l)])
          else if fgt current_distance l then
            (let p = session_path (log_dir env) current_distance (datetime_now env st)
             in (tick (st\<lparr>last_distance := Some current_distance, current_csv_log := Some p\<rparr>),
                 [Print (NewDistance current_distance p)]))
          else (st, []))"

text \<open>Lines 159-199: a line that starts with \<^verbatim>\<open>DATA,\<close>.\<close>

definition handle_data :: "env \<Rightarrow> loop_state \<Rightarrow> string \<Rightarrow> loop_state \<times> effect list" where
  "handle_data env st line =
     (case process_data_line (datetime_now env st) line of
        Inl d \<Rightarrow> (st, [Print d])
      | Inr data \<Rightarrow>
          (case py_float env (Distance_m data) of
             None \<Rightarrow> (tick st, [Print DistanceError])
           | Some current_distance \<Rightarrow>
               (let (data', st1, out1) = carry_lost env (tick st) data current_distance;
                    (st2, out2) = select_session env st1 current_distance
                in (st2, out1 @ out2 @ log_if_open (current_csv_log st2) data'))))"

text \<open>Lines 140-199: one line read from the serial port.\<close>

definition step :: "env \<Rightarrow> loop_state \<Rightarrow> string \<Rightarrow> loop_state \<times> effect list" where
  "step env st raw =
     (let line = strip raw in
      if line = [] then (st, [])
      else if startswith line ''Large gap detected'' then
        (st, [Print (Raw line), Print IgnoringLargeGap])
      else if startswith line ''LOST:'' then
        (let (st', out) = handle_lost env st line in (st', Print (Raw line) # out))
      else if startswith line ''DATA,'' then
        (let (st', out) = handle_data env st line in (st', Print (Raw line) # out))
      else (st, [Print (Raw line)]))"

text \<open>
  The loop over the lines that arrive: the state after each line, with what that line
  printed and logged.
\<close>

fun run :: "env \<Rightarrow> loop_state \<Rightarrow> string list \<Rightarrow> (loop_state \<times> effect list) list" where
  "run env st [] = []"
| "run env st (l # ls) = step env st l # run env (fst (step env st l)) ls"

definition state_after :: "env \<Rightarrow> loop_state \<Rightarrow> string list \<Rightarrow> loop_state" where
  "state_after env st ls = foldl (\<lambda>s l. fst (step env s l)) st ls"

text \<open>The log files created by a list of effects, and the destinations written to.\<close>

fun created :: "effect list \<Rightarrow> string list" where
  "created [] = []"
| "created (Print (NewSession d p) # es) = p # created es"
| "created (Print (NewDistance d p) # es) = p # created es"
| "created (e # es) = created es"

fun logged :: "effect list \<Rightarrow> (row \<times> string) list" where
  "logged [] = []"
| "logged (LogData r p # es) = (r, p) # logged es"
| "logged (e # es) = logged es"

text \<open>
  A well-formed DATA reading of distance \<open>d\<close>: a line that, stripped, starts with \<^verbatim>\<open>DATA,\<close>,
  has its ten fields, and whose fourth field \<^verbatim>\<open>float\<close> converts to \<open>d\<close>.
\<close>

definition data_reading :: "env \<Rightarrow> string \<Rightarrow> pyfloat \<Rightarrow> bool" where
  "data_reading env raw d \<longleftrightarrow>
     startswith (strip raw) ''DATA,''
     \<and> 10 \<le> length (split_on CHR '','' (strip raw))
     \<and> py_float env (split_on CHR '','' (strip raw) ! 3) = Some d"

section \<open>An environment for examples\<close>

text \<open>
  Python's \<^verbatim>\<open>float\<close> on plain decimal texts, an optional minus sign, digits, and optionally a
  point and more digits, whose value is a double. No other text occurs in the examples.
\<close>

definition float_dec :: "string \<Rightarrow> pyfloat option" where
  "float_dec s =
     (let t = num_strip s;
          neg = startswith t ''-'';
          u = (if neg then tl t else t);
          ip = takeWhile (\<lambda>c. c \<noteq> CHR ''.'') u;
          fp = drop 1 (dropWhile (\<lambda>c. c \<noteq> CHR ''.'') u)
      in if ip = [] then None
         else (case int_of_digits 0 (ip @ fp) of
                 None \<Rightarrow> None
               | Some n \<Rightarrow>
                   if n = 0 then Some (if neg then NegZero else Finite 0)
                   else Some (Finite ((if neg then - 1 else 1) * of_int n / 10 ^ length fp))))"

definition env0 :: "(nat \<Rightarrow> datetime) \<Rightarrow> env" where
  "env0 c = \<lparr>log_dir = ''/home/pi/lora_data_logs'', py_float = float_dec, clock = c\<rparr>"

definition noon :: "nat \<Rightarrow> datetime" where
  "noon s = \<lparr>year = 2025, month = 3, day = 14, hour = 12, minute = 0, second = s\<rparr>"

text \<open>
  Two more clocks: one that is read several times within the same second, and one that is set
  back between two readings (an adjustment of the system time), so that a second comes again.
\<close>

definition same_second :: "nat \<Rightarrow> datetime" where
  "same_second k = noon 0"


section \<open>Vocabulary of the properties\<close>

text \<open>
  No session yet, as at the start of the loop; or a session is open: the log file is the one
  made from the last recorded distance and some earlier reading of the clock.
\<close>

definition no_session :: "loop_state \<Rightarrow> bool" where
  "no_session st \<longleftrightarrow> last_distance st = None \<and> current_csv_log st = None"

definition session_open :: "env \<Rightarrow> loop_state \<Rightarrow> pyfloat \<Rightarrow> nat \<Rightarrow> bool" where
  "session_open env st d r \<longleftrightarrow>
     last_distance st = Some d \<and> r < clock_reads st
     \<and> current_csv_log st = Some (session_path (log_dir env) d (clock env r))"

text \<open>
  A reading of distance \<open>d\<close> opens a session in state \<open>st\<close>: it is the first one, or it is
  greater than the last recorded distance.
\<close>

definition opens :: "loop_state \<Rightarrow> pyfloat \<Rightarrow> bool" where
  "opens st d = (case last_distance st of None \<Rightarrow> True | Some l \<Rightarrow> flt l d)"

text \<open>The two variables agree: both unset, or both set by the same opening of a session.\<close>

definition consistent :: "env \<Rightarrow> loop_state \<Rightarrow> bool" where
  "consistent env st \<longleftrightarrow> no_session st \<or> (\<exists>d r. session_open env st d r)"

text \<open>The last white-space delimited token of a line, read off the line from its end.\<close>

definition trailing_token :: "string \<Rightarrow> string" where
  "trailing_token s = rev (takeWhile (\<lambda>c. \<not> is_space c) (dropWhile is_space (rev s)))"







definition steady_clock :: "env \<Rightarrow> bool" where
  "steady_clock env \<longleftrightarrow>
     (\<forall>i j k. i \<le> j \<and> j \<le> k \<and> strftime_file (clock env i) = strftime_file (clock env k)
        \<longrightarrow> strftime_file (clock env j) = strftime_file (clock env i))"

text \<open>
  A clock that is not set back: every reading is a calendar time with the field ranges of
  Python's datetime, and later readings are not earlier in the order of the fields.
\<close>

definition is_datetime :: "datetime \<Rightarrow> bool" where
  "is_datetime t \<longleftrightarrow>
     1 \<le> month t \<and> month t \<le> 12 \<and> 1 \<le> day t \<and> day t \<le> 31
     \<and> hour t < 24 \<and> minute t < 60 \<and> second t < 60"

definition dt_le :: "datetime \<Rightarrow> datetime \<Rightarrow> bool" where
  "dt_le a b \<longleftrightarrow>
     year a < year b \<or> (year a = year b \<and>
     (month a < month b \<or> (month a = month b \<and>
     (day a < day b \<or> (day a = day b \<and>
     (hour a < hour b \<or> (hour a = hour b \<and>
     (minute a < minute b \<or> (minute a = minute b \<and> second a \<le> second b)))))))))"

definition clock_not_set_back :: "env \<Rightarrow> bool" where
  "clock_not_set_back env \<longleftrightarrow>
     (\<forall>i. is_datetime (clock env i)) \<and> (\<forall>i j. i \<le> j \<longrightarrow> dt_le (clock env i) (clock env j))"

section \<open>Facts about the text primitives\<close>

lemma startswith_take: "startswith s p \<Longrightarrow> n \<le> length p \<Longrightarrow> take n s = take n p"
  unfolding startswith_def by (metis min.absorb1 take_take)

lemma startswith_data_line:
  assumes "startswith line ''DATA,''"
  shows "line \<noteq> []" and "\<not> startswith line ''Large gap detected''"
    and "\<not> startswith line ''LOST:''"
proof -
  have d: "take 1 line = take 1 ''DATA,''"
    using assms by (rule startswith_take) simp
  then show "line \<noteq> []" by auto
  show "\<not> startswith line ''Large gap detected''"
  proof
    assume "startswith line ''Large gap detected''"
    then have "take 1 line = take 1 ''Large gap detected''"
      by (rule startswith_take) simp
    with d show False by simp
  qed
  show "\<not> startswith line ''LOST:''"
  proof
    assume "startswith line ''LOST:''"
    then have "take 1 line = take 1 ''LOST:''"
      by (rule startswith_take) simp
    with d show False by simp
  qed
qed

lemma startswith_lost_line:
  assumes "startswith line ''LOST:''"
  shows "line \<noteq> []" and "\<not> startswith line ''Large gap detected''"
proof -
  have l: "take 2 line = take 2 ''LOST:''"
    using assms by (rule startswith_take) simp
  then show "line \<noteq> []" by auto
  show "\<not> startswith line ''Large gap detected''"
  proof
    assume "startswith line ''Large gap detected''"
    then have "take 2 line = take 2 ''Large gap detected''"
      by (rule startswith_take) simp
    with l show False by simp
  qed
qed

lemma strip_keeps_prefix:
  assumes "startswith raw p" and "p \<noteq> []" and "\<not> is_space (hd p)" and "\<not> is_space (last p)"
  shows "startswith (strip raw) p"
proof -
  from assms(1) have "raw = p @ drop (length p) raw"
    unfolding startswith_def by (metis append_take_drop_id)
  then obtain rest where raw: "raw = p @ rest" ..
  have front: "dropWhile is_space raw = p @ rest"
    using assms(2,3) unfolding raw by (cases p) auto
  have "\<not> is_space (hd (rev p))" and "rev p \<noteq> []"
    using assms(2,4) by (simp_all add: hd_rev)
  then have rear: "dropWhile is_space (rev p) = rev p"
    by (cases "rev p") auto
  have "\<exists>ys. dropWhile is_space (rev rest @ rev p) = ys @ rev p"
    using rear by (auto simp: dropWhile_append)
  then obtain ys where "dropWhile is_space (rev (p @ rest)) = ys @ rev p"
    by auto
  then have "strip raw = p @ rev ys"
    by (simp add: strip_def front)
  then show ?thesis
    by (simp add: startswith_def)
qed

section \<open>Lines that are not readings\<close>

text \<open>
  C8. A line that begins with the sentinel \<^verbatim>\<open>Large gap detected\<close>, before or after the
  stripping of line 140, hands nothing to the sink and leaves the whole state as it was, the
  last lost count, the last distance and the current log file in particular.
\<close>

theorem large_gap_line_changes_nothing:
  "startswith raw ''Large gap detected'' \<or> startswith (strip raw) ''Large gap detected'' \<Longrightarrow>
     step env st raw = (st, [Print (Raw (strip raw)), Print IgnoringLargeGap])
     \<and> logged (snd (step env st raw)) = []
     \<and> created (snd (step env st raw)) = []
     \<and> last_lost (fst (step env st raw)) = last_lost st
     \<and> last_distance (fst (step env st raw)) = last_distance st
     \<and> current_csv_log (fst (step env st raw)) = current_csv_log st"
proof -
  assume "startswith raw ''Large gap detected'' \<or> startswith (strip raw) ''Large gap detected''"
  then have sw: "startswith (strip raw) ''Large gap detected''"
    by (auto intro: strip_keeps_prefix simp: is_space_def)
  then have "strip raw \<noteq> []"
    by (auto simp: startswith_def)
  with sw have "step env st raw = (st, [Print (Raw (strip raw)), Print IgnoringLargeGap])"
    by (simp add: step_def Let_def)
  then show ?thesis by simp
qed

theorem large_gap_line_changes_nothing_witness:
  "startswith ''Large gap detected: 12 packets'' ''Large gap detected''
   \<and> step (env0 noon) init_state ''Large gap detected: 12 packets''
       = (init_state, [Print (Raw ''Large gap detected: 12 packets''), Print IgnoringLargeGap])"
  using large_gap_line_changes_nothing [of "''Large gap detected: 12 packets''" "env0 noon" init_state]
  by (simp add: startswith_def strip_def is_space_def)

lemma split_ws_Nil_iff: "split_ws s = [] \<longleftrightarrow> (\<forall>c\<in>set s. is_space c)"
proof (cases "dropWhile is_space s")
  case Nil
  then have "split_ws s = []"
    using split_ws.simps [of s] by (simp only: list.case)
  moreover from Nil have "\<forall>c\<in>set s. is_space c"
    by (simp add: dropWhile_eq_Nil_conv)
  ultimately show ?thesis by simp
next
  case (Cons x xs)
  then have "split_ws s \<noteq> []"
    using split_ws.simps [of s] by (simp only: list.case list.simps simp_thms)
  moreover from Cons have "dropWhile is_space s \<noteq> []"
    by simp
  then have "\<not> (\<forall>c\<in>set s. is_space c)"
    by (simp add: dropWhile_eq_Nil_conv)
  ultimately show ?thesis by simp
qed

lemma trailing_token_append_spaces:
  assumes "\<forall>c\<in>set b. is_space c"
  shows "trailing_token (a @ b) = trailing_token a"
  using assms by (simp add: trailing_token_def dropWhile_append)

lemma trailing_token_after_space:
  assumes "b \<noteq> []" and "is_space (hd b)" and "\<exists>c\<in>set b. \<not> is_space c"
  shows "trailing_token (a @ b) = trailing_token b"
proof -
  let ?D = "dropWhile is_space (rev b)"
  have nall: "\<not> (\<forall>c\<in>set (rev b). is_space c)"
    using assms(3) by simp
  then have D: "dropWhile is_space (rev b @ rev a) = ?D @ rev a"
    by (auto simp: dropWhile_append)
  have ne: "?D \<noteq> []"
    using nall by (simp add: dropWhile_eq_Nil_conv)
  have "last (takeWhile is_space (rev b) @ ?D) = last ?D"
    using ne by (rule last_appendR)
  then have "last ?D = last (rev b)"
    by (simp only: takeWhile_dropWhile_id)
  also have "\<dots> = hd b"
    using assms(1) by (simp add: last_rev)
  finally have "is_space (last ?D)"
    using assms(2) by simp
  moreover have "last ?D \<in> set ?D"
    using ne by (rule last_in_set)
  ultimately have "takeWhile (\<lambda>c. \<not> is_space c) (?D @ rev a) = takeWhile (\<lambda>c. \<not> is_space c) ?D"
    by (intro takeWhile_append1) auto
  then show ?thesis
    by (simp add: trailing_token_def D)
qed

lemma trailing_token_single:
  assumes "tok \<noteq> []" and "\<forall>c\<in>set tok. \<not> is_space c" and "\<forall>c\<in>set pre. is_space c"
  shows "trailing_token (pre @ tok) = tok"
proof -
  have "rev tok \<noteq> []" and "\<not> is_space (hd (rev tok))"
    using assms(1,2) by (simp_all add: hd_rev)
  then have "dropWhile is_space (rev tok @ rev pre) = rev tok @ rev pre"
    by (cases "rev tok") auto
  moreover have "takeWhile (\<lambda>c. \<not> is_space c) (rev tok @ rev pre)
      = rev tok @ takeWhile (\<lambda>c. \<not> is_space c) (rev pre)"
    by (rule takeWhile_append2) (use assms(2) in auto)
  moreover have "takeWhile (\<lambda>c. \<not> is_space c) (rev pre) = []"
    using assms(3) by (cases "rev pre") auto
  ultimately show ?thesis
    by (simp add: trailing_token_def)
qed

lemma last_split_ws:
  "\<not> (\<forall>c\<in>set s. is_space c) \<Longrightarrow> last (split_ws s) = trailing_token s"
proof (induction s rule: split_ws.induct)
  case (1 s)
  let ?pre = "takeWhile is_space s"
  let ?body = "dropWhile is_space s"
  let ?tok = "takeWhile (\<lambda>c. \<not> is_space c) ?body"
  let ?rest = "dropWhile (\<lambda>c. \<not> is_space c) ?body"
  from "1.prems" have "?body \<noteq> []"
    by (simp add: dropWhile_eq_Nil_conv)
  then obtain x xs where body: "?body = x # xs"
    by (cases ?body) auto
  have "\<not> is_space (hd ?body)"
    using \<open>?body \<noteq> []\<close> by (rule hd_dropWhile)
  then have "hd ?body \<in> set ?tok"
    using \<open>?body \<noteq> []\<close> by (cases ?body) auto
  then have tok_ne: "?tok \<noteq> []"
    by auto
  have tok_ns: "\<forall>c\<in>set ?tok. \<not> is_space c"
    by (auto dest: set_takeWhileD)
  have pre: "\<forall>c\<in>set ?pre. is_space c"
    by (auto dest: set_takeWhileD)
  have s: "(?pre @ ?tok) @ ?rest = s"
    by simp
  have IH: "last (split_ws ?rest) = trailing_token ?rest" if "\<not> (\<forall>c\<in>set ?rest. is_space c)"
    using "1.IH" [OF body] that unfolding body by blast
  have "split_ws s = (case ?body of [] \<Rightarrow> []
      | x # xs \<Rightarrow> takeWhile (\<lambda>c. \<not> is_space c) (x # xs)
                 # split_ws (dropWhile (\<lambda>c. \<not> is_space c) (x # xs)))"
    by (rule split_ws.simps)
  also have "\<dots> = takeWhile (\<lambda>c. \<not> is_space c) (x # xs)
                 # split_ws (dropWhile (\<lambda>c. \<not> is_space c) (x # xs))"
    by (simp only: body list.case)
  also have "\<dots> = ?tok # split_ws ?rest"
    by (simp only: body)
  finally have unfold: "split_ws s = ?tok # split_ws ?rest" .
  show ?case
  proof (cases "\<forall>c\<in>set ?rest. is_space c")
    case True
    then have "split_ws ?rest = []"
      by (simp only: split_ws_Nil_iff)
    then have "last (?tok # split_ws ?rest) = ?tok"
      by (rule last_ConsL)
    then have l: "last (split_ws s) = ?tok"
      by (simp only: unfold)
    have "trailing_token ((?pre @ ?tok) @ ?rest) = trailing_token (?pre @ ?tok)"
      using True by (rule trailing_token_append_spaces)
    also have "\<dots> = ?tok"
      using tok_ne tok_ns pre by (rule trailing_token_single)
    finally have "trailing_token s = ?tok"
      by (simp only: s)
    with l show ?thesis
      by (simp only:)
  next
    case False
    then have ne: "split_ws ?rest \<noteq> []"
      by (simp only: split_ws_Nil_iff not_False_eq_True)
    have "last (?tok # split_ws ?rest) = last (split_ws ?rest)"
      using ne by (rule last_ConsR)
    also have "\<dots> = trailing_token ?rest"
      using False by (rule IH)
    finally have l: "last (split_ws s) = trailing_token ?rest"
      by (simp only: unfold)
    have rest_ne: "?rest \<noteq> []"
    proof
      assume e: "?rest = []"
      have "\<forall>c\<in>set ?rest. is_space c"
        unfolding e by simp
      with False show False ..
    qed
    then have "\<not> \<not> is_space (hd ?rest)"
      by (rule hd_dropWhile)
    then have "is_space (hd ?rest)"
      by blast
    moreover from False have "\<exists>c\<in>set ?rest. \<not> is_space c"
      by blast
    ultimately have "trailing_token ((?pre @ ?tok) @ ?rest) = trailing_token ?rest"
      using rest_ne by (intro trailing_token_after_space)
    then have "trailing_token s = trailing_token ?rest"
      by (simp only: s)
    with l show ?thesis
      by (simp only:)
  qed
qed

lemma startswith_has_token:
  assumes "startswith line ''LOST:''"
  shows "\<not> (\<forall>c\<in>set line. is_space c)"
proof -
  have "take 1 line = take 1 ''LOST:''"
    using assms by (rule startswith_take) simp
  then obtain rest where "line = CHR ''L'' # rest"
    by (cases line) auto
  then show ?thesis
    by (auto simp: is_space_def)
qed

text \<open>
  C9. \<^verbatim>\<open>process_lost_line\<close> returns the row that carries the trailing white-space delimited
  token of the line as its message number, and fails (it returns \<^verbatim>\<open>None\<close>) exactly when the
  line has no token at all. A line that begins with \<^verbatim>\<open>LOST:\<close> always has one.
\<close>

theorem lost_line_trailing_token:
  "process_lost_line t line =
     (if \<forall>c\<in>set line. is_space c then Inl LostLineError
      else Inr (lost_row t (trailing_token line)))
   \<and> (startswith line ''LOST:'' \<longrightarrow>
        process_lost_line t line = Inr (lost_row t (trailing_token line))
        \<and> MessageNumber (lost_row t (trailing_token line)) = trailing_token line
        \<and> Event (lost_row t (trailing_token line)) = ''LOST'')"
proof -
  have "process_lost_line t line =
     (if \<forall>c\<in>set line. is_space c then Inl LostLineError
      else Inr (lost_row t (trailing_token line)))"
    by (simp add: process_lost_line_def split_ws_Nil_iff last_split_ws)
  then show ?thesis
    using startswith_has_token [of line] by (auto simp: lost_row_def)
qed

theorem lost_line_trailing_token_witness:
  "startswith ''LOST: Packet 9'' ''LOST:''
   \<and> trailing_token ''LOST: Packet 9'' = ''9''
   \<and> process_lost_line (noon 0) ''LOST: Packet 9'' = Inr (lost_row (noon 0) ''9'')"
  using lost_line_trailing_token [of "noon 0" "''LOST: Packet 9''"]
  by (simp add: startswith_def trailing_token_def is_space_def)

section \<open>Normalising a DATA line\<close>

lemma process_data_line_ok:
  "10 \<le> length (split_on CHR '','' line) \<Longrightarrow>
     process_data_line t line = Inr (fix_total (data_row t (split_on CHR '','' line)))"
  by (simp add: process_data_line_def)

lemma process_data_line_Inr:
  "process_data_line t line = Inr data \<Longrightarrow>
     10 \<le> length (split_on CHR '','' line)
     \<and> data = fix_total (data_row t (split_on CHR '','' line))"
  by (auto simp: process_data_line_def Let_def split: if_splits)

lemma fix_total_fields [simp]:
  "Timestamp (fix_total r) = Timestamp r" "Event (fix_total r) = Event r"
  "MessageNumber (fix_total r) = MessageNumber r" "Distance_m (fix_total r) = Distance_m r"
  "Received (fix_total r) = Received r" "Lost (fix_total r) = Lost r"
  "RSSI (fix_total r) = RSSI r" "SNR (fix_total r) = SNR r" "LossRate (fix_total r) = LossRate r"
  by (simp_all add: fix_total_def)

text \<open>
  C6, as the program has it. The test of line 54 compares text, it parses nothing: the total
  is replaced by the received count exactly when the field, stripped, is the text \<^verbatim>\<open>0\<close>, and
  is kept as it is otherwise.
\<close>

theorem total_packets_substitution:
  "process_data_line t line = Inr data \<Longrightarrow>
     Received data = split_on CHR '','' line ! 4
     \<and> (strip (split_on CHR '','' line ! 8) = ''0'' \<longrightarrow> TotalPackets data = Received data)
     \<and> (strip (split_on CHR '','' line ! 8) \<noteq> ''0'' \<longrightarrow>
          TotalPackets data = split_on CHR '','' line ! 8)"
proof -
  assume "process_data_line t line = Inr data"
  then have data: "data = fix_total (data_row t (split_on CHR '','' line))"
    by (simp add: process_data_line_Inr)
  show ?thesis
    unfolding data by (auto simp: fix_total_def data_row_def)
qed

theorem total_packets_substitution_witness:
  "process_data_line (noon 0) ''DATA,1,7,10.0,5,0,-50,9.5,0,0.0''
     = Inr \<lparr>Timestamp = ''2025-03-14 12:00:00'', Event = ''DATA'', MessageNumber = ''7'',
            Distance_m = ''10.0'', Received = ''5'', Lost = ''0'', RSSI = ''-50'', SNR = ''9.5'',
            TotalPackets = ''5'', LossRate = ''0.0''\<rparr>
   \<and> strip (split_on CHR '','' ''DATA,1,7,10.0,5,0,-50,9.5,0,0.0'' ! 8) = ''0''
   \<and> TotalPackets \<lparr>Timestamp = ''2025-03-14 12:00:00'', Event = ''DATA'', MessageNumber = ''7'',
            Distance_m = ''10.0'', Received = ''5'', Lost = ''0'', RSSI = ''-50'', SNR = ''9.5'',
            TotalPackets = ''5'', LossRate = ''0.0''\<rparr> = ''5''"
proof -
  have e: "process_data_line (noon 0) ''DATA,1,7,10.0,5,0,-50,9.5,0,0.0''
     = Inr \<lparr>Timestamp = ''2025-03-14 12:00:00'', Event = ''DATA'', MessageNumber = ''7'',
            Distance_m = ''10.0'', Received = ''5'', Lost = ''0'', RSSI = ''-50'', SNR = ''9.5'',
            TotalPackets = ''5'', LossRate = ''0.0''\<rparr>"
    by code_simp
  have z: "strip (split_on CHR '','' ''DATA,1,7,10.0,5,0,-50,9.5,0,0.0'' ! 8) = ''0''"
    by code_simp
  show ?thesis
    using total_packets_substitution [OF e] e z by simp
qed

text \<open>
  The claim as worded fails, since parsing is not what the program tests. A total that parses
  to 0 need not be replaced: on \<^verbatim>\<open>00\<close> the row that reaches the sink still has the total
  \<^verbatim>\<open>00\<close>, not the received count \<^verbatim>\<open>5\<close>.
\<close>

theorem total_packets_00_counterexample:
  "int_of_text (split_on CHR '','' ''DATA,1,7,10.0,5,0,-50,9.5,00,0.0'' ! 8) = Some 0
   \<and> process_data_line (noon 0) ''DATA,1,7,10.0,5,0,-50,9.5,00,0.0''
     = Inr \<lparr>Timestamp = ''2025-03-14 12:00:00'', Event = ''DATA'', MessageNumber = ''7'',
            Distance_m = ''10.0'', Received = ''5'', Lost = ''0'', RSSI = ''-50'', SNR = ''9.5'',
            TotalPackets = ''00'', LossRate = ''0.0''\<rparr>
   \<and> map (\<lambda>e. (TotalPackets (fst e), Received (fst e)))
         (logged (snd (step (env0 noon) init_state ''DATA,1,7,10.0,5,0,-50,9.5,00,0.0'')))
       = [(''00'', ''5'')]"
  by code_simp

text \<open>
  Nor is a total that does not parse to 0 always kept: \<^verbatim>\<open>0\<close> followed by the separator U+001F
  does not parse (\<^verbatim>\<open>int\<close> and \<^verbatim>\<open>float\<close> raise on it), and it is replaced, because
  \<^verbatim>\<open>strip()\<close> removes the separator.
\<close>

lemma total_packets_unit_separator_replaced:
  "int_of_text (split_on CHR '','' (''DATA,1,7,10.0,5,0,-50,9.5,0'' @ [CHR 0x1F] @ '',0.0'') ! 8)
     = None
   \<and> strip (split_on CHR '','' (''DATA,1,7,10.0,5,0,-50,9.5,0'' @ [CHR 0x1F] @ '',0.0'') ! 8)
     = ''0''
   \<and> process_data_line (noon 0) (''DATA,1,7,10.0,5,0,-50,9.5,0'' @ [CHR 0x1F] @ '',0.0'')
     = Inr \<lparr>Timestamp = ''2025-03-14 12:00:00'', Event = ''DATA'', MessageNumber = ''7'',
            Distance_m = ''10.0'', Received = ''5'', Lost = ''0'', RSSI = ''-50'', SNR = ''9.5'',
            TotalPackets = ''5'', LossRate = ''0.0''\<rparr>"
  by code_simp


section \<open>The state machine, step by step\<close>

lemma flt_irrefl: "\<not> flt a a"
  by (auto simp: flt_def split: option.splits)


lemma flt_asym: "flt a b \<Longrightarrow> \<not> flt b a"
  by (auto simp: flt_def split: option.splits)

lemma fle_not_flt: "fle a b \<Longrightarrow> \<not> flt b a"
  by (auto simp: fle_def feq_def flt_def split: option.splits)

lemma fle_trans: "fle a b \<Longrightarrow> fle b c \<Longrightarrow> fle a c"
  by (auto simp: fle_def feq_def flt_def split: option.splits)

lemma lower_iff_flt: "fle a b \<and> fne a b \<longleftrightarrow> flt a b"
  by (auto simp: fle_def fne_def feq_def flt_def split: option.splits)

lemma zero_below_positive:
  "feq d (Finite 0) \<Longrightarrow> flt (Finite 0) l \<Longrightarrow> flt d l \<and> fne l (Finite 0)"
  by (auto simp: fne_def feq_def flt_def split: option.splits)

lemma path_join_nonempty: "b \<noteq> [] \<Longrightarrow> path_join a b \<noteq> []"
  by (simp add: path_join_def)

lemma session_path_nonempty: "session_path dir d t \<noteq> []"
  unfolding session_path_def by (rule path_join_nonempty) simp

lemma step_data_reading:
  assumes "data_reading env raw d"
  shows "step env st raw =
     (let data = fix_total (data_row (datetime_now env st) (split_on CHR '','' (strip raw)));
          (data', st1, out1) = carry_lost env (tick st) data d;
          (st2, out2) = select_session env st1 d
      in (st2, Print (Raw (strip raw)) # out1 @ out2 @ log_if_open (current_csv_log st2) data'))"
proof -
  let ?line = "strip raw"
  from assms have sw: "startswith ?line ''DATA,''" and len: "10 \<le> length (split_on CHR '','' ?line)"
    and fl: "py_float env (split_on CHR '','' ?line ! 3) = Some d"
    by (simp_all add: data_reading_def)
  note nl = startswith_data_line [OF sw]
  have "handle_data env st ?line =
     (let data = fix_total (data_row (datetime_now env st) (split_on CHR '','' ?line));
          (data', st1, out1) = carry_lost env (tick st) data d;
          (st2, out2) = select_session env st1 d
      in (st2, out1 @ out2 @ log_if_open (current_csv_log st2) data'))"
    using fl by (simp add: handle_data_def process_data_line_ok [OF len] data_row_def Let_def)
  then show ?thesis
    using nl sw by (simp add: step_def Let_def split: prod.splits)
qed

text \<open>What \<open>carry_lost\<close> leaves alone.\<close>

lemma carry_lost_frame:
  "carry_lost env st data d = (data', st', out) \<Longrightarrow>
     last_distance st' = last_distance st \<and> current_csv_log st' = current_csv_log st
     \<and> clock_reads st' = clock_reads st \<and> created out = [] \<and> logged out = []"
  by (auto simp: carry_lost_def Let_def split: if_splits)

lemma select_session_opens:
  assumes "opens st d"
  shows "select_session env st d =
     (tick (st\<lparr>last_distance := Some d,
               current_csv_log := Some (session_path (log_dir env) d (datetime_now env st))\<rparr>),
      [Print ((if last_distance st = None then NewSession else NewDistance) d
                (session_path (log_dir env) d (datetime_now env st)))])"
  using assms lower_iff_flt [of d] flt_asym [of _ d]
  by (auto simp: select_session_def opens_def fgt_def Let_def split: option.splits)

lemma select_session_stays:
  assumes "\<not> opens st d"
  shows "fst (select_session env st d) = st"
    and "created (snd (select_session env st d)) = []"
    and "logged (snd (select_session env st d)) = []"
  using assms
  by (auto simp: select_session_def opens_def fgt_def Let_def split: option.splits)

lemma logged_append [simp]: "logged (xs @ ys) = logged xs @ logged ys"
  by (induction xs rule: logged.induct) simp_all

lemma created_append [simp]: "created (xs @ ys) = created xs @ created ys"
  by (induction xs rule: created.induct) simp_all

lemma created_log_if_open [simp]: "created (log_if_open csv data) = []"
  by (simp add: log_if_open_def split: option.splits)

lemma logged_log_if_open:
  "logged (log_if_open csv data) =
     (case csv of None \<Rightarrow> [] | Some p \<Rightarrow> if p = [] then [] else [(data, p)])"
  by (simp add: log_if_open_def split: option.splits)


lemma step_data_opens:
  assumes "data_reading env raw d" and "opens st d"
  defines "P \<equiv> session_path (log_dir env) d (clock env (Suc (clock_reads st)))"
  shows "last_distance (fst (step env st raw)) = Some d"
    and "current_csv_log (fst (step env st raw)) = Some P"
    and "clock_reads (fst (step env st raw)) = clock_reads st + 2"
    and "created (snd (step env st raw)) = [P]"
    and "map snd (logged (snd (step env st raw))) = [P]"
proof -
  let ?data = "fix_total (data_row (datetime_now env st) (split_on CHR '','' (strip raw)))"
  obtain data' st1 out1 where cl: "carry_lost env (tick st) ?data d = (data', st1, out1)"
    by (cases "carry_lost env (tick st) ?data d") auto
  note fr = carry_lost_frame [OF cl]
  have o1: "opens st1 d"
    using assms(2) fr by (simp add: opens_def tick_def)
  have P: "session_path (log_dir env) d (datetime_now env st1) = P"
    using fr by (simp add: P_def datetime_now_def tick_def)
  have Pne: "P \<noteq> []"
    unfolding P_def by (rule session_path_nonempty)
  have st: "step env st raw =
      (tick (st1\<lparr>last_distance := Some d, current_csv_log := Some P\<rparr>),
       Print (Raw (strip raw)) # out1
         @ [Print ((if last_distance st1 = None then NewSession else NewDistance) d P)]
         @ [LogData data' P])"
    using Pne
    by (simp add: step_data_reading [OF assms(1)] cl select_session_opens [OF o1] P
        log_if_open_def tick_def [of "st1\<lparr>last_distance := Some d, current_csv_log := Some P\<rparr>"])
  show "last_distance (fst (step env st raw)) = Some d"
    by (simp add: st tick_def)
  show "current_csv_log (fst (step env st raw)) = Some P"
    by (simp add: st tick_def)
  show "clock_reads (fst (step env st raw)) = clock_reads st + 2"
    using fr by (simp add: st tick_def)
  show "created (snd (step env st raw)) = [P]"
    using fr by (simp add: st)
  show "map snd (logged (snd (step env st raw))) = [P]"
    using fr by (simp add: st)
qed

lemma step_data_stays:
  assumes "data_reading env raw d" and "\<not> opens st d"
  shows "last_distance (fst (step env st raw)) = last_distance st"
    and "current_csv_log (fst (step env st raw)) = current_csv_log st"
    and "clock_reads (fst (step env st raw)) = Suc (clock_reads st)"
    and "created (snd (step env st raw)) = []"
    and "map snd (logged (snd (step env st raw)))
          = (case current_csv_log st of None \<Rightarrow> [] | Some p \<Rightarrow> if p = [] then [] else [p])"
proof -
  let ?data = "fix_total (data_row (datetime_now env st) (split_on CHR '','' (strip raw)))"
  obtain data' st1 out1 where cl: "carry_lost env (tick st) ?data d = (data', st1, out1)"
    by (cases "carry_lost env (tick st) ?data d") auto
  note fr = carry_lost_frame [OF cl]
  have o1: "\<not> opens st1 d"
    using assms(2) fr by (simp add: opens_def tick_def)
  note ss = select_session_stays [OF o1, of env]
  obtain out2 where sel: "select_session env st1 d = (st1, out2)"
    using ss(1) by (cases "select_session env st1 d") auto
  have out2: "created out2 = []" "logged out2 = []"
    using ss(2,3) by (simp_all add: sel)
  have st: "step env st raw =
      (st1, Print (Raw (strip raw)) # out1 @ out2 @ log_if_open (current_csv_log st1) data')"
    by (simp add: step_data_reading [OF assms(1)] cl sel)
  show "last_distance (fst (step env st raw)) = last_distance st"
    using fr by (simp add: st tick_def)
  show "current_csv_log (fst (step env st raw)) = current_csv_log st"
    using fr by (simp add: st tick_def)
  show "clock_reads (fst (step env st raw)) = Suc (clock_reads st)"
    using fr by (simp add: st tick_def)
  show "created (snd (step env st raw)) = []"
    using fr out2 by (simp add: st)
  show "map snd (logged (snd (step env st raw)))
          = (case current_csv_log st of None \<Rightarrow> [] | Some p \<Rightarrow> if p = [] then [] else [p])"
    using fr out2 by (simp add: st logged_log_if_open tick_def split: option.splits)
qed

lemma process_lost_line_Inl: "process_lost_line t line = Inl x \<Longrightarrow> x = LostLineError"
  by (auto simp: process_lost_line_def Let_def split: if_splits)

lemma handle_lost_frame:
  "handle_lost env st line = (st', out) \<Longrightarrow>
     last_distance st' = last_distance st \<and> current_csv_log st' = current_csv_log st
     \<and> last_lost st' = last_lost st
     \<and> clock_reads st \<le> clock_reads st' \<and> created out = []
     \<and> set (map snd (logged out)) \<subseteq> set_option (current_csv_log st)"
  by (auto simp: handle_lost_def log_if_open_def tick_def dest!: process_lost_line_Inl
      split: sum.splits option.splits if_splits)

lemma handle_data_not_reading:
  assumes "\<not> (10 \<le> length (split_on CHR '','' line)
             \<and> py_float env (split_on CHR '','' line ! 3) \<noteq> None)"
    and "handle_data env st line = (st', out)"
  shows "last_distance st' = last_distance st \<and> current_csv_log st' = current_csv_log st
     \<and> last_lost st' = last_lost st
     \<and> clock_reads st \<le> clock_reads st' \<and> created out = [] \<and> logged out = []"
  using assms
  by (auto simp: handle_data_def process_data_line_def data_row_def tick_def Let_def
      split: sum.splits option.splits if_splits)

lemma step_not_reading:
  assumes "\<forall>d. \<not> data_reading env raw d"
  shows "last_distance (fst (step env st raw)) = last_distance st"
    and "current_csv_log (fst (step env st raw)) = current_csv_log st"
    and "last_lost (fst (step env st raw)) = last_lost st"
    and "clock_reads st \<le> clock_reads (fst (step env st raw))"
    and "created (snd (step env st raw)) = []"
    and "set (map snd (logged (snd (step env st raw)))) \<subseteq> set_option (current_csv_log st)"
proof -
  let ?line = "strip raw"
  obtain st1 out1 where hl: "handle_lost env st ?line = (st1, out1)"
    by (cases "handle_lost env st ?line") auto
  obtain st2 out2 where hd: "handle_data env st ?line = (st2, out2)"
    by (cases "handle_data env st ?line") auto
  note l = handle_lost_frame [OF hl]
  have "startswith ?line ''DATA,'' \<Longrightarrow>
      \<not> (10 \<le> length (split_on CHR '','' ?line)
         \<and> py_float env (split_on CHR '','' ?line ! 3) \<noteq> None)"
    using assms by (auto simp: data_reading_def)
  note d = handle_data_not_reading [OF this hd]
  have st: "step env st raw =
     (if ?line = [] then (st, [])
      else if startswith ?line ''Large gap detected'' then
        (st, [Print (Raw ?line), Print IgnoringLargeGap])
      else if startswith ?line ''LOST:'' then (st1, Print (Raw ?line) # out1)
      else if startswith ?line ''DATA,'' then (st2, Print (Raw ?line) # out2)
      else (st, [Print (Raw ?line)]))"
    by (simp add: step_def Let_def hl hd)
  show "last_distance (fst (step env st raw)) = last_distance st"
    using l d by (simp add: st)
  show "current_csv_log (fst (step env st raw)) = current_csv_log st"
    using l d by (simp add: st)
  show "last_lost (fst (step env st raw)) = last_lost st"
    using l d by (simp add: st)
  show "clock_reads st \<le> clock_reads (fst (step env st raw))"
    using l d by (simp add: st)
  show "created (snd (step env st raw)) = []"
    using l d by (simp add: st)
  show "set (map snd (logged (snd (step env st raw)))) \<subseteq> set_option (current_csv_log st)"
    using l d by (simp add: st)
qed

section \<open>States the loop can reach\<close>

lemma consistent_init: "consistent env init_state"
  by (simp add: consistent_def no_session_def init_state_def)

lemma state_after_Nil [simp]: "state_after env st [] = st"
  by (simp add: state_after_def)

lemma state_after_Cons [simp]:
  "state_after env st (l # ls) = state_after env (fst (step env st l)) ls"
  by (simp add: state_after_def)

lemma state_after_append:
  "state_after env st (ks @ ls) = state_after env (state_after env st ks) ls"
  by (simp add: state_after_def)

lemma step_opens_session:
  assumes "data_reading env raw d" and "consistent env st"
  shows "\<exists>d' r. session_open env (fst (step env st raw)) d' r"
proof (cases "opens st d")
  case True
  note s = step_data_opens [OF assms(1) True]
  have "session_open env (fst (step env st raw)) d (Suc (clock_reads st))"
    by (simp add: session_open_def s(1,2,3))
  then show ?thesis by blast
next
  case False
  note s = step_data_stays [OF assms(1) False]
  from False have "last_distance st \<noteq> None"
    by (auto simp: opens_def split: option.splits)
  with assms(2) obtain d' r where "session_open env st d' r"
    by (auto simp: consistent_def no_session_def)
  then have "session_open env (fst (step env st raw)) d' r"
    by (simp add: session_open_def s(1,2,3))
  then show ?thesis by blast
qed

lemma step_keeps_session:
  assumes "session_open env st d r"
  shows "\<exists>d' r'. session_open env (fst (step env st raw)) d' r'"
proof (cases "\<exists>e. data_reading env raw e")
  case True
  then obtain e where "data_reading env raw e" ..
  moreover have "consistent env st"
    using assms by (auto simp: consistent_def)
  ultimately show ?thesis
    by (rule step_opens_session)
next
  case False
  then have n: "\<forall>e. \<not> data_reading env raw e" by blast
  note s = step_not_reading [OF n, of st]
  have "session_open env (fst (step env st raw)) d r"
    using assms s(4) by (simp add: session_open_def s(1,2))
  then show ?thesis by blast
qed

lemma step_no_session:
  assumes "no_session st" and "\<forall>e. \<not> data_reading env raw e"
  shows "no_session (fst (step env st raw))"
  using assms(1) step_not_reading(1,2) [OF assms(2), of st] by (simp add: no_session_def)

lemma step_consistent:
  assumes "consistent env st"
  shows "consistent env (fst (step env st raw))"
proof (cases "\<exists>e. data_reading env raw e")
  case True
  then obtain e where "data_reading env raw e" ..
  then show ?thesis
    using assms step_opens_session unfolding consistent_def by blast
next
  case False
  then have n: "\<forall>e. \<not> data_reading env raw e" by blast
  show ?thesis
    using assms step_no_session [OF _ n] step_keeps_session unfolding consistent_def by blast
qed

lemma state_after_consistent:
  "consistent env st \<Longrightarrow> consistent env (state_after env st ls)"
  by (induction ls arbitrary: st) (simp_all add: step_consistent)

lemma reachable_consistent: "consistent env (state_after env init_state ls)"
  by (rule state_after_consistent) (rule consistent_init)

lemma state_after_keeps_session:
  "\<exists>d r. session_open env st d r \<Longrightarrow> \<exists>d r. session_open env (state_after env st ls) d r"
proof (induction ls arbitrary: st)
  case Nil
  then show ?case by simp
next
  case (Cons l ls)
  from Cons.prems obtain d r where "session_open env st d r" by blast
  then have "\<exists>d r. session_open env (fst (step env st l)) d r"
    by (rule step_keeps_session)
  then show ?case
    using Cons.IH by simp
qed

lemma state_after_no_reading:
  "no_session st \<Longrightarrow> \<forall>l\<in>set ls. \<forall>e. \<not> data_reading env l e \<Longrightarrow>
     no_session (state_after env st ls)"
  by (induction ls arbitrary: st) (simp_all add: step_no_session)

lemma state_after_some_reading:
  "consistent env st \<Longrightarrow> \<exists>l\<in>set ls. \<exists>e. data_reading env l e \<Longrightarrow>
     \<exists>d r. session_open env (state_after env st ls) d r"
proof (induction ls arbitrary: st)
  case Nil
  then show ?case by simp
next
  case (Cons l ls)
  show ?case
  proof (cases "\<exists>e. data_reading env l e")
    case True
    then obtain e where "data_reading env l e" ..
    then have "\<exists>d r. session_open env (fst (step env st l)) d r"
      using Cons.prems(1) by (rule step_opens_session)
    then show ?thesis
      using state_after_keeps_session by simp
  next
    case False
    with Cons.prems(2) have "\<exists>l\<in>set ls. \<exists>e. data_reading env l e"
      by auto
    moreover have "consistent env (fst (step env st l))"
      using Cons.prems(1) by (rule step_consistent)
    ultimately show ?thesis
      using Cons.IH by simp
  qed
qed

lemma process_lost_line_lost:
  assumes "startswith line ''LOST:''"
  shows "process_lost_line t line = Inr (lost_row t (trailing_token line))"
  using startswith_has_token [OF assms]
  by (simp add: process_lost_line_def split_ws_Nil_iff last_split_ws)

lemma step_lost_line:
  assumes "startswith (strip raw) ''LOST:''"
  shows "step env st raw =
     (tick st,
      Print (Raw (strip raw))
        # (case current_csv_log st of
             None \<Rightarrow> [Print NoCsvLogYet]
           | Some p \<Rightarrow>
               if p = [] then [Print NoCsvLogYet]
               else [LogData (lost_row (datetime_now env st) (trailing_token (strip raw))) p]))"
  using startswith_lost_line [OF assms]
  by (simp add: step_def handle_lost_def process_lost_line_lost [OF assms] assms
      log_if_open_def Let_def split: option.splits)

text \<open>
  C5. A line that begins with \<^verbatim>\<open>LOST:\<close>, in a state reached by the loop. If no well-formed
  DATA reading came before, no log file is set, the line is answered with the message that no
  log file exists yet, nothing is handed to the sink, and the three variables stay as they
  were: the state has no place that could hold the event for later. If one came before, the
  row of the lost packet is logged to the current log file.
\<close>

theorem lost_line_needs_open_session:
  assumes "startswith (strip raw) ''LOST:''" and "st = state_after env init_state pre"
  shows "((\<forall>l\<in>set pre. \<forall>d. \<not> data_reading env l d) \<longrightarrow>
            current_csv_log st = None
            \<and> step env st raw = (tick st, [Print (Raw (strip raw)), Print NoCsvLogYet]))
       \<and> ((\<exists>l\<in>set pre. \<exists>d. data_reading env l d) \<longrightarrow>
            (\<exists>p. current_csv_log st = Some p
               \<and> step env st raw =
                   (tick st,
                    [Print (Raw (strip raw)),
                     LogData (lost_row (datetime_now env st) (trailing_token (strip raw))) p])))
       \<and> current_csv_log (tick st) = current_csv_log st
       \<and> last_distance (tick st) = last_distance st
       \<and> last_lost (tick st) = last_lost st"
proof (intro conjI impI)
  assume "\<forall>l\<in>set pre. \<forall>d. \<not> data_reading env l d"
  then have "no_session st"
    unfolding assms(2) by (intro state_after_no_reading) (simp_all add: no_session_def init_state_def)
  then show "current_csv_log st = None"
    by (simp add: no_session_def)
  then show "step env st raw = (tick st, [Print (Raw (strip raw)), Print NoCsvLogYet])"
    by (simp add: step_lost_line [OF assms(1)])
next
  assume "\<exists>l\<in>set pre. \<exists>d. data_reading env l d"
  then obtain d r where "session_open env st d r"
    unfolding assms(2) using state_after_some_reading [OF consistent_init] by blast
  then have "current_csv_log st = Some (session_path (log_dir env) d (clock env r))"
    by (simp add: session_open_def)
  then show "\<exists>p. current_csv_log st = Some p
               \<and> step env st raw =
                   (tick st,
                    [Print (Raw (strip raw)),
                     LogData (lost_row (datetime_now env st) (trailing_token (strip raw))) p])"
    by (simp add: step_lost_line [OF assms(1)] session_path_nonempty)
qed (simp_all add: tick_def)


theorem lost_line_needs_open_session_witness:
  "startswith (strip ''LOST: Packet 9'') ''LOST:''
   \<and> step (env0 noon) (state_after (env0 noon) init_state []) ''LOST: Packet 9''
       = (tick (state_after (env0 noon) init_state []),
          [Print (Raw ''LOST: Packet 9''), Print NoCsvLogYet])
   \<and> data_reading (env0 noon) ''DATA,1,7,10.0,5,0,-50,9.5,7,0.0'' (Finite 10)
   \<and> step (env0 noon) (state_after (env0 noon) init_state [''DATA,1,7,10.0,5,0,-50,9.5,7,0.0''])
         ''LOST: Packet 9''
       = (tick (state_after (env0 noon) init_state [''DATA,1,7,10.0,5,0,-50,9.5,7,0.0'']),
          [Print (Raw ''LOST: Packet 9''),
           LogData (lost_row (noon 2) ''9'')
             ''/home/pi/lora_data_logs/lora_data_10.00m_2025-03-14_12-00-01.csv''])"
proof -
  let ?E = "env0 noon" and ?L = "''LOST: Packet 9''" and ?D = "''DATA,1,7,10.0,5,0,-50,9.5,7,0.0''"
  have h: "startswith (strip ?L) ''LOST:''"
    by code_simp
  have r: "data_reading ?E ?D (Finite 10)"
    by code_simp
  have ev: "strip ?L = ?L" "trailing_token ?L = ''9''"
    "datetime_now ?E (state_after ?E init_state [?D]) = noon 2"
    "current_csv_log (state_after ?E init_state [?D])
       = Some ''/home/pi/lora_data_logs/lora_data_10.00m_2025-03-14_12-00-01.csv''"
    by code_simp+
  have a: "step ?E (state_after ?E init_state []) ?L
       = (tick (state_after ?E init_state []), [Print (Raw (strip ?L)), Print NoCsvLogYet])"
    using lost_line_needs_open_session [where env = ?E and pre = "[]", OF h refl] by simp
  have "\<exists>l\<in>set [?D]. \<exists>d. data_reading ?E l d"
    using r by auto
  then have b: "\<exists>p. current_csv_log (state_after ?E init_state [?D]) = Some p
       \<and> step ?E (state_after ?E init_state [?D]) ?L
           = (tick (state_after ?E init_state [?D]),
              [Print (Raw (strip ?L)),
               LogData (lost_row (datetime_now ?E (state_after ?E init_state [?D]))
                          (trailing_token (strip ?L))) p])"
    using lost_line_needs_open_session [where env = ?E and pre = "[?D]", OF h refl] by blast
  show ?thesis
    using h r a b unfolding ev by auto
qed

text \<open>
  C10. On the first well-formed reading, one of distance 0.0 included, line 171 does not fire
  (there is no last distance), the session is opened on that distance, the last distance
  becomes that distance, and the row is logged with the lost count it came with.
\<close>

theorem first_zero_reading_opens_session:
  assumes "data_reading env raw d" and "feq d (Finite 0)" and "last_distance st = None"
  defines "parts \<equiv> split_on CHR '','' (strip raw)"
    and "P \<equiv> session_path (log_dir env) d (clock env (Suc (clock_reads st)))"
  shows "\<not> transient_zero (last_distance st) d
     \<and> step env st raw =
         (st\<lparr>last_lost := Some (parse_lost env (parts ! 5)), last_distance := Some d,
             current_csv_log := Some P, clock_reads := clock_reads st + 2\<rparr>,
          [Print (Raw (strip raw)), Print (NewSession d P),
           LogData (fix_total (data_row (clock env (clock_reads st)) parts)) P])
     \<and> Lost (fix_total (data_row (clock env (clock_reads st)) parts)) = parts ! 5
     \<and> (fmt2 d = ''0.00'' \<or> fmt2 d = ''-0.00'')"
proof -
  have nt: "\<not> transient_zero (last_distance st) d"
    using assms(3) by (simp add: transient_zero_def)
  then have cl: "carry_lost env (tick st) (fix_total (data_row (datetime_now env st) parts)) d
      = (fix_total (data_row (datetime_now env st) parts),
         (tick st)\<lparr>last_lost := Some (parse_lost env (parts ! 5))\<rparr>, [])"
    by (simp add: carry_lost_def tick_def data_row_def)
  have o: "opens ((tick st)\<lparr>last_lost := Some (parse_lost env (parts ! 5))\<rparr>) d"
    using assms(3) by (simp add: opens_def tick_def)
  have Pne: "P \<noteq> []"
    unfolding P_def by (rule session_path_nonempty)
  have "step env st raw =
         (st\<lparr>last_lost := Some (parse_lost env (parts ! 5)), last_distance := Some d,
             current_csv_log := Some P, clock_reads := clock_reads st + 2\<rparr>,
          [Print (Raw (strip raw)), Print (NewSession d P),
           LogData (fix_total (data_row (clock env (clock_reads st)) parts)) P])"
    using Pne assms(3)
    unfolding parts_def P_def
    by (simp add: step_data_reading [OF assms(1)] cl [unfolded parts_def]
        select_session_opens [OF o [unfolded parts_def]] log_if_open_def)
       (simp add: tick_def datetime_now_def)
  moreover have "fmt2 d = ''0.00'' \<or> fmt2 d = ''-0.00''"
    using assms(2) by (cases d) (auto simp: feq_def round_half_even_def fmt_hundredths_def
        pad2_def str_nat.simps digit_char_def)
  ultimately show ?thesis
    using nt by (simp add: data_row_def)
qed


theorem first_zero_reading_opens_session_witness:
  "data_reading (env0 noon) ''DATA,1,1,0.0,1,2,-50,9.5,3,0.0'' (Finite 0)
   \<and> feq (Finite 0) (Finite 0) \<and> last_distance init_state = None
   \<and> step (env0 noon) init_state ''DATA,1,1,0.0,1,2,-50,9.5,3,0.0''
       = (\<lparr>current_csv_log =
             Some ''/home/pi/lora_data_logs/lora_data_0.00m_2025-03-14_12-00-01.csv'',
           last_distance = Some (Finite 0), last_lost = Some 2, clock_reads = 2\<rparr>,
          [Print (Raw ''DATA,1,1,0.0,1,2,-50,9.5,3,0.0''),
           Print (NewSession (Finite 0)
             ''/home/pi/lora_data_logs/lora_data_0.00m_2025-03-14_12-00-01.csv''),
           LogData \<lparr>Timestamp = ''2025-03-14 12:00:00'', Event = ''DATA'', MessageNumber = ''1'',
                    Distance_m = ''0.0'', Received = ''1'', Lost = ''2'', RSSI = ''-50'',
                    SNR = ''9.5'', TotalPackets = ''3'', LossRate = ''0.0''\<rparr>
             ''/home/pi/lora_data_logs/lora_data_0.00m_2025-03-14_12-00-01.csv''])"
proof -
  let ?E = "env0 noon" and ?Z = "''DATA,1,1,0.0,1,2,-50,9.5,3,0.0''"
  have h1: "data_reading ?E ?Z (Finite 0)"
    by code_simp
  have h2: "feq (Finite 0) (Finite 0)"
    by code_simp
  have h3: "last_distance init_state = None"
    by code_simp
  have s: "step ?E init_state ?Z =
         (init_state\<lparr>last_lost := Some (parse_lost ?E (split_on CHR '','' (strip ?Z) ! 5)),
             last_distance := Some (Finite 0),
             current_csv_log := Some (session_path (log_dir ?E) (Finite 0)
                                       (clock ?E (Suc (clock_reads init_state)))),
             clock_reads := clock_reads init_state + 2\<rparr>,
          [Print (Raw (strip ?Z)),
           Print (NewSession (Finite 0) (session_path (log_dir ?E) (Finite 0)
                                       (clock ?E (Suc (clock_reads init_state))))),
           LogData (fix_total (data_row (clock ?E (clock_reads init_state))
                                (split_on CHR '','' (strip ?Z))))
             (session_path (log_dir ?E) (Finite 0) (clock ?E (Suc (clock_reads init_state))))])"
    using first_zero_reading_opens_session [OF h1 h2 h3] by blast
  have ev: "(init_state\<lparr>last_lost := Some (parse_lost ?E (split_on CHR '','' (strip ?Z) ! 5)),
             last_distance := Some (Finite 0),
             current_csv_log := Some (session_path (log_dir ?E) (Finite 0)
                                       (clock ?E (Suc (clock_reads init_state)))),
             clock_reads := clock_reads init_state + 2\<rparr>,
          [Print (Raw (strip ?Z)),
           Print (NewSession (Finite 0) (session_path (log_dir ?E) (Finite 0)
                                       (clock ?E (Suc (clock_reads init_state))))),
           LogData (fix_total (data_row (clock ?E (clock_reads init_state))
                                (split_on CHR '','' (strip ?Z))))
             (session_path (log_dir ?E) (Finite 0) (clock ?E (Suc (clock_reads init_state))))])
       = (\<lparr>current_csv_log =
             Some ''/home/pi/lora_data_logs/lora_data_0.00m_2025-03-14_12-00-01.csv'',
           last_distance = Some (Finite 0), last_lost = Some 2, clock_reads = 2\<rparr>,
          [Print (Raw ''DATA,1,1,0.0,1,2,-50,9.5,3,0.0''),
           Print (NewSession (Finite 0)
             ''/home/pi/lora_data_logs/lora_data_0.00m_2025-03-14_12-00-01.csv''),
           LogData \<lparr>Timestamp = ''2025-03-14 12:00:00'', Event = ''DATA'', MessageNumber = ''1'',
                    Distance_m = ''0.0'', Received = ''1'', Lost = ''2'', RSSI = ''-50'',
                    SNR = ''9.5'', TotalPackets = ''3'', LossRate = ''0.0''\<rparr>
             ''/home/pi/lora_data_logs/lora_data_0.00m_2025-03-14_12-00-01.csv''])"
    by code_simp
  from s ev have "step ?E init_state ?Z = (\<lparr>current_csv_log =
             Some ''/home/pi/lora_data_logs/lora_data_0.00m_2025-03-14_12-00-01.csv'',
           last_distance = Some (Finite 0), last_lost = Some 2, clock_reads = 2\<rparr>,
          [Print (Raw ''DATA,1,1,0.0,1,2,-50,9.5,3,0.0''),
           Print (NewSession (Finite 0)
             ''/home/pi/lora_data_logs/lora_data_0.00m_2025-03-14_12-00-01.csv''),
           LogData \<lparr>Timestamp = ''2025-03-14 12:00:00'', Event = ''DATA'', MessageNumber = ''1'',
                    Distance_m = ''0.0'', Received = ''1'', Lost = ''2'', RSSI = ''-50'',
                    SNR = ''9.5'', TotalPackets = ''3'', LossRate = ''0.0''\<rparr>
             ''/home/pi/lora_data_logs/lora_data_0.00m_2025-03-14_12-00-01.csv''])"
    by (rule trans)
  with h1 h2 h3 show ?thesis
    by (intro conjI)
qed

text \<open>
  C3. In a state reached by the loop in which the last distance is positive, a well-formed
  reading of distance 0.0 changes none of the three variables, opens no session, and is
  logged to the open session with the last valid lost count (0 if there is none) in place of
  its own, its distance field being the text that was read.
\<close>

theorem transient_zero_keeps_session:
  assumes "data_reading env raw d" and "feq d (Finite 0)"
    and "st = state_after env init_state pre"
    and "last_distance st = Some l" and "flt (Finite 0) l"
  defines "parts \<equiv> split_on CHR '','' (strip raw)"
    and "n \<equiv> (case last_lost st of None \<Rightarrow> 0 | Some k \<Rightarrow> k)"
  shows "(\<exists>p. current_csv_log st = Some p
            \<and> step env st raw =
                (tick st,
                 [Print (Raw (strip raw)), Print (TransientZero n), Print (LowerValue d l),
                  LogData ((fix_total (data_row (clock env (clock_reads st)) parts))
                             \<lparr>Lost := str_int n\<rparr>) p]))
     \<and> Distance_m ((fix_total (data_row (clock env (clock_reads st)) parts))\<lparr>Lost := str_int n\<rparr>)
         = parts ! 3
     \<and> py_float env (parts ! 3) = Some d
     \<and> last_distance (tick st) = Some l
     \<and> current_csv_log (tick st) = current_csv_log st
     \<and> last_lost (tick st) = last_lost st
     \<and> created (snd (step env st raw)) = []"
proof -
  let ?data = "fix_total (data_row (datetime_now env st) (split_on CHR '','' (strip raw)))"
  have "consistent env st"
    unfolding assms(3) by (rule reachable_consistent)
  with assms(4) obtain d' r where "session_open env st d' r"
    by (auto simp: consistent_def no_session_def)
  then obtain p where p: "current_csv_log st = Some p" "p \<noteq> []"
    by (auto simp: session_open_def session_path_nonempty)
  note z = zero_below_positive [OF assms(2,5)]
  have tz: "transient_zero (last_distance (tick st)) d"
    using assms(2,4) z by (simp add: transient_zero_def tick_def)
  have cl: "carry_lost env (tick st) ?data d
      = (?data\<lparr>Lost := str_int n\<rparr>, tick st, [Print (TransientZero n)])"
    using tz by (simp add: carry_lost_def n_def tick_def Let_def)
  have sel: "select_session env (tick st) d = (tick st, [Print (LowerValue d l)])"
    using z assms(4) lower_iff_flt [of d l]
    by (simp add: select_session_def tick_def)
  have st: "step env st raw =
      (tick st,
       [Print (Raw (strip raw)), Print (TransientZero n), Print (LowerValue d l),
        LogData (?data\<lparr>Lost := str_int n\<rparr>) p])"
    using p by (simp add: step_data_reading [OF assms(1)] cl sel log_if_open_def)
       (simp add: tick_def)
  have "py_float env (parts ! 3) = Some d"
    using assms(1) by (simp add: data_reading_def parts_def)
  then show ?thesis
    using p assms(4) unfolding st parts_def
    by (simp add: tick_def datetime_now_def data_row_def)
qed


theorem transient_zero_keeps_session_witness:
  "data_reading (env0 noon) ''DATA,1,2,0.0,5,9,-50,9.5,7,0.0'' (Finite 0)
   \<and> feq (Finite 0) (Finite 0)
   \<and> last_distance (state_after (env0 noon) init_state [''DATA,1,1,10.0,5,3,-50,9.5,7,0.0''])
       = Some (Finite 10)
   \<and> flt (Finite 0) (Finite 10)
   \<and> step (env0 noon) (state_after (env0 noon) init_state [''DATA,1,1,10.0,5,3,-50,9.5,7,0.0''])
         ''DATA,1,2,0.0,5,9,-50,9.5,7,0.0''
       = (\<lparr>current_csv_log =
             Some ''/home/pi/lora_data_logs/lora_data_10.00m_2025-03-14_12-00-01.csv'',
           last_distance = Some (Finite 10), last_lost = Some 3, clock_reads = 3\<rparr>,
          [Print (Raw ''DATA,1,2,0.0,5,9,-50,9.5,7,0.0''), Print (TransientZero 3),
           Print (LowerValue (Finite 0) (Finite 10)),
           LogData \<lparr>Timestamp = ''2025-03-14 12:00:02'', Event = ''DATA'', MessageNumber = ''2'',
                    Distance_m = ''0.0'', Received = ''5'', Lost = ''3'', RSSI = ''-50'',
                    SNR = ''9.5'', TotalPackets = ''7'', LossRate = ''0.0''\<rparr>
             ''/home/pi/lora_data_logs/lora_data_10.00m_2025-03-14_12-00-01.csv''])"
proof -
  let ?E = "env0 noon" and ?Z = "''DATA,1,2,0.0,5,9,-50,9.5,7,0.0''"
  let ?st = "state_after (env0 noon) init_state [''DATA,1,1,10.0,5,3,-50,9.5,7,0.0'']"
  let ?p = "''/home/pi/lora_data_logs/lora_data_10.00m_2025-03-14_12-00-01.csv''"
  have h1: "data_reading ?E ?Z (Finite 0)"
    by code_simp
  have h2: "feq (Finite 0) (Finite 0)"
    by code_simp
  have h4: "last_distance ?st = Some (Finite 10)"
    by code_simp
  have h5: "flt (Finite 0) (Finite 10)"
    by code_simp
  have csv: "current_csv_log ?st = Some ?p"
    by code_simp
  obtain p where p: "current_csv_log ?st = Some p"
    and s: "step ?E ?st ?Z =
      (tick ?st,
       [Print (Raw (strip ?Z)),
        Print (TransientZero (case last_lost ?st of None \<Rightarrow> 0 | Some k \<Rightarrow> k)),
        Print (LowerValue (Finite 0) (Finite 10)),
        LogData ((fix_total (data_row (clock ?E (clock_reads ?st)) (split_on CHR '','' (strip ?Z))))
                   \<lparr>Lost := str_int (case last_lost ?st of None \<Rightarrow> 0 | Some k \<Rightarrow> k)\<rparr>) p])"
    using transient_zero_keeps_session [OF h1 h2 refl h4 h5] by blast
  from p csv have "p = ?p"
    by simp
  note s' = s [unfolded this]
  have ev: "(tick ?st,
       [Print (Raw (strip ?Z)),
        Print (TransientZero (case last_lost ?st of None \<Rightarrow> 0 | Some k \<Rightarrow> k)),
        Print (LowerValue (Finite 0) (Finite 10)),
        LogData ((fix_total (data_row (clock ?E (clock_reads ?st)) (split_on CHR '','' (strip ?Z))))
                   \<lparr>Lost := str_int (case last_lost ?st of None \<Rightarrow> 0 | Some k \<Rightarrow> k)\<rparr>) ?p])
     = (\<lparr>current_csv_log = Some ?p,
           last_distance = Some (Finite 10), last_lost = Some 3, clock_reads = 3\<rparr>,
          [Print (Raw ''DATA,1,2,0.0,5,9,-50,9.5,7,0.0''), Print (TransientZero 3),
           Print (LowerValue (Finite 0) (Finite 10)),
           LogData \<lparr>Timestamp = ''2025-03-14 12:00:02'', Event = ''DATA'', MessageNumber = ''2'',
                    Distance_m = ''0.0'', Received = ''5'', Lost = ''3'', RSSI = ''-50'',
                    SNR = ''9.5'', TotalPackets = ''7'', LossRate = ''0.0''\<rparr> ?p])"
    by code_simp
  from s' ev have "step ?E ?st ?Z
     = (\<lparr>current_csv_log = Some ?p,
           last_distance = Some (Finite 10), last_lost = Some 3, clock_reads = 3\<rparr>,
          [Print (Raw ''DATA,1,2,0.0,5,9,-50,9.5,7,0.0''), Print (TransientZero 3),
           Print (LowerValue (Finite 0) (Finite 10)),
           LogData \<lparr>Timestamp = ''2025-03-14 12:00:02'', Event = ''DATA'', MessageNumber = ''2'',
                    Distance_m = ''0.0'', Received = ''5'', Lost = ''3'', RSSI = ''-50'',
                    SNR = ''9.5'', TotalPackets = ''7'', LossRate = ''0.0''\<rparr> ?p])"
    by (rule trans)
  with h1 h2 h4 h5 show ?thesis
    by (intro conjI)
qed

section \<open>What a log file name determines\<close>

lemma digit_char_digit: "digit_char n \<in> set ''0123456789''"
  unfolding digit_char_def by (rule nth_mem) simp

lemma str_nat_digits: "set (str_nat n) \<subseteq> set ''0123456789''"
proof (induction n rule: str_nat.induct)
  case (1 n)
  show ?case
  proof (cases "n < 10")
    case True
    then have "str_nat n = [digit_char n]"
      by (subst str_nat.simps) simp
    then show ?thesis
      using digit_char_digit [of n] by simp
  next
    case False
    then have "str_nat n = str_nat (n div 10) @ [digit_char (n mod 10)]"
      by (subst str_nat.simps) simp
    then show ?thesis
      using "1.IH" [OF False] digit_char_digit [of "n mod 10"] by simp
  qed
qed

lemma pad2_digits: "set (pad2 n) \<subseteq> set ''0123456789''"
  using str_nat_digits [of n] by (auto simp: pad2_def)

lemma str_nat_no_m: "CHR ''m'' \<notin> set (str_nat n)"
  using str_nat_digits [of n] by auto

lemma pad2_no_m: "CHR ''m'' \<notin> set (pad2 n)"
  using pad2_digits [of n] by auto

lemma strftime_file_no_m: "CHR ''m'' \<notin> set (strftime_file t)"
  by (simp add: strftime_file_def str_nat_no_m pad2_no_m)

lemma split_at_first:
  "c \<notin> set p \<Longrightarrow> c \<notin> set p' \<Longrightarrow> p @ c # s = p' @ c # s' \<Longrightarrow> p = p' \<and> s = s'"
proof (induction p arbitrary: p')
  case Nil
  then show ?case by (cases p') auto
next
  case (Cons a p)
  then show ?case by (cases p') auto
qed

lemma split_at_last:
  assumes "c \<notin> set r" and "c \<notin> set r'" and "x @ c # r = x' @ c # r'"
  shows "x = x' \<and> r = r'"
proof -
  have e: "rev r @ c # rev x = rev r' @ c # rev x'"
    using arg_cong [OF assms(3), of rev] by simp
  have n: "c \<notin> set (rev r)" "c \<notin> set (rev r')"
    using assms(1,2) by simp_all
  from n e have "rev r = rev r' \<and> rev x = rev x'"
    by (rule split_at_first)
  then show ?thesis by simp
qed

lemma path_join_relative:
  "\<not> startswith b ''/'' \<Longrightarrow>
     path_join a b = (if a = [] \<or> last a = CHR ''/'' then a else a @ ''/'') @ b"
  by (simp add: path_join_def)

lemma session_path_eq_iff:
  "session_path dir d t = session_path dir d' t' \<longleftrightarrow>
     fmt2 d = fmt2 d' \<and> strftime_file t = strftime_file t'"
proof
  let ?pre = "(if dir = [] \<or> last dir = CHR ''/'' then dir else dir @ ''/'') @ ''lora_data_''"
  assume "session_path dir d t = session_path dir d' t'"
  then have "?pre @ fmt2 d @ ''m_'' @ strftime_file t @ ''.csv''
      = ?pre @ fmt2 d' @ ''m_'' @ strftime_file t' @ ''.csv''"
    by (simp add: session_path_def path_join_relative startswith_def)
  then have "fmt2 d @ CHR ''m'' # (CHR ''_'' # strftime_file t @ ''.csv'')
      = fmt2 d' @ CHR ''m'' # (CHR ''_'' # strftime_file t' @ ''.csv'')"
    by simp
  moreover have "CHR ''m'' \<notin> set (CHR ''_'' # strftime_file t @ ''.csv'')"
    and "CHR ''m'' \<notin> set (CHR ''_'' # strftime_file t' @ ''.csv'')"
    using strftime_file_no_m by simp_all
  ultimately have "fmt2 d = fmt2 d'
      \<and> CHR ''_'' # strftime_file t @ ''.csv'' = CHR ''_'' # strftime_file t' @ ''.csv''"
    by (intro split_at_last)
  then show "fmt2 d = fmt2 d' \<and> strftime_file t = strftime_file t'"
    by simp
next
  assume "fmt2 d = fmt2 d' \<and> strftime_file t = strftime_file t'"
  then show "session_path dir d t = session_path dir d' t'"
    by (simp add: session_path_def)
qed

section \<open>Runs of the loop\<close>

lemma non_increasing_below_first:
  "successively (\<lambda>a b. fle b a) (d1 # ds) \<Longrightarrow> \<forall>d\<in>set ds. fle d d1"
proof (induction ds arbitrary: d1)
  case Nil
  then show ?case by simp
next
  case (Cons d ds)
  from Cons.prems have first: "fle d d1" and rest: "successively (\<lambda>a b. fle b a) (d # ds)"
    by simp_all
  have below: "\<forall>e\<in>set ds. fle e d"
    using rest by (rule Cons.IH)
  show ?case
  proof
    fix e
    assume "e \<in> set (d # ds)"
    then consider "e = d" | "e \<in> set ds"
      by auto
    then show "fle e d1"
    proof cases
      case 1
      then show ?thesis using first by simp
    next
      case 2
      then have "fle e d" using below by blast
      then show ?thesis using first by (rule fle_trans)
    qed
  qed
qed

lemma data_row_fields [simp]:
  "Distance_m (data_row t parts) = parts ! 3" "Received (data_row t parts) = parts ! 4"
  "Lost (data_row t parts) = parts ! 5" "TotalPackets (data_row t parts) = parts ! 8"
  by (simp_all add: data_row_def)

lemma step_data_rows:
  fixes st :: loop_state
  assumes "data_reading env raw d"
  defines "data \<equiv> fix_total (data_row (clock env (clock_reads st)) (split_on CHR '','' (strip raw)))"
  shows "last_lost (fst (step env st raw))
           = (if transient_zero (last_distance st) d then last_lost st
              else Some (parse_lost env (split_on CHR '','' (strip raw) ! 5)))"
    and "fst ` set (logged (snd (step env st raw)))
           \<subseteq> {if transient_zero (last_distance st) d
               then data\<lparr>Lost := str_int (case last_lost st of None \<Rightarrow> 0 | Some k \<Rightarrow> k)\<rparr>
               else data}"
proof -
  let ?data = "fix_total (data_row (datetime_now env st) (split_on CHR '','' (strip raw)))"
  let ?row = "if transient_zero (last_distance st) d
              then ?data\<lparr>Lost := str_int (case last_lost st of None \<Rightarrow> 0 | Some k \<Rightarrow> k)\<rparr>
              else ?data"
  let ?st1 = "if transient_zero (last_distance st) d then tick st
              else (tick st)\<lparr>last_lost := Some (parse_lost env (split_on CHR '','' (strip raw) ! 5))\<rparr>"
  have ld: "last_distance (tick st) = last_distance st" "last_lost (tick st) = last_lost st"
    by (simp_all add: tick_def)
  have "\<exists>out1. carry_lost env (tick st) ?data d = (?row, ?st1, out1) \<and> logged out1 = []"
  proof (cases "transient_zero (last_distance st) d")
    case True
    then show ?thesis
      by (simp add: carry_lost_def ld Let_def)
  next
    case False
    then show ?thesis
      by (simp add: carry_lost_def ld)
  qed
  then obtain out1 where cl: "carry_lost env (tick st) ?data d = (?row, ?st1, out1)" and
    o1: "logged out1 = []"
    by blast
  obtain st2 out2 where sel: "select_session env ?st1 d = (st2, out2)"
    by (cases "select_session env ?st1 d") auto
  have ll: "last_lost st2 = last_lost ?st1" and o2: "logged out2 = []"
    using sel
    by (auto simp: select_session_def tick_def Let_def split: option.splits if_splits)
  have st: "step env st raw =
      (st2, Print (Raw (strip raw)) # out1 @ out2 @ log_if_open (current_csv_log st2) ?row)"
    by (simp add: step_data_reading [OF assms(1)] cl sel)
  show "last_lost (fst (step env st raw))
           = (if transient_zero (last_distance st) d then last_lost st
              else Some (parse_lost env (split_on CHR '','' (strip raw) ! 5)))"
    using ll by (simp add: st tick_def)
  have "logged (snd (step env st raw)) = logged (log_if_open (current_csv_log st2) ?row)"
    using o1 o2 by (simp add: st)
  then have "fst ` set (logged (snd (step env st raw))) \<subseteq> {?row}"
    by (cases "current_csv_log st2") (simp_all add: logged_log_if_open)
  then show "fst ` set (logged (snd (step env st raw)))
           \<subseteq> {if transient_zero (last_distance st) d
               then data\<lparr>Lost := str_int (case last_lost st of None \<Rightarrow> 0 | Some k \<Rightarrow> k)\<rparr>
               else data}"
    unfolding data_def datetime_now_def .
qed

lemma run_stays:
  assumes "list_all2 (data_reading env) ls ds" and "\<forall>d\<in>set ds. fle d d1"
    and "last_distance st = Some d1" and "current_csv_log st = Some P" and "P \<noteq> []"
  shows "\<forall>r\<in>set (run env st ls).
           last_distance (fst r) = Some d1 \<and> current_csv_log (fst r) = Some P
           \<and> created (snd r) = [] \<and> map snd (logged (snd r)) = [P]"
  using assms
proof (induction ls ds arbitrary: st rule: list_all2_induct)
  case Nil
  then show ?case by simp
next
  case (Cons l ls d ds)
  have "\<not> opens st d"
    using Cons.prems(1,2) fle_not_flt [of d d1] by (simp add: opens_def)
  note s = step_data_stays [OF Cons.hyps(1) this]
  have here: "last_distance (fst (step env st l)) = Some d1"
    "current_csv_log (fst (step env st l)) = Some P"
    "created (snd (step env st l)) = []" "map snd (logged (snd (step env st l))) = [P]"
    using Cons.prems(2,3,4) by (simp_all add: s)
  have "\<forall>r\<in>set (run env (fst (step env st l)) ls).
           last_distance (fst r) = Some d1 \<and> current_csv_log (fst r) = Some P
           \<and> created (snd r) = [] \<and> map snd (logged (snd r)) = [P]"
    using Cons.prems(1) here(1,2) Cons.prems(4) by (intro Cons.IH) simp_all
  with here show ?case by simp
qed


lemma length_run: "length (run env st ls) = length ls"
  by (induction ls arbitrary: st) simp_all

lemma map_const_on: "\<forall>x\<in>set xs. f x = c \<Longrightarrow> length xs = n \<Longrightarrow> map f xs = replicate n c"
  by (induction xs arbitrary: n) auto

lemma opens_init: "opens init_state d"
  by (simp add: opens_def init_state_def)

text \<open>
  C2. After a first well-formed reading, well-formed readings whose distances are all at most
  the recorded distance, that of the first reading, equal ones included, create no log file:
  the only one created is that of the first reading, the recorded distance stays, and every
  reading hands exactly one row to the sink, for that file. A non-increasing sequence of
  distances is the special case of \<open>non_increasing_below_first\<close>.
\<close>

theorem non_increasing_readings_stay_in_first_session:
  assumes "data_reading env l d1" and "list_all2 (data_reading env) ls ds"
    and "\<forall>d\<in>set ds. fle d d1"
  defines "P \<equiv> session_path (log_dir env) d1 (clock env 1)"
  shows "concat (map (created \<circ> snd) (run env init_state (l # ls))) = [P]
     \<and> map (current_csv_log \<circ> fst) (run env init_state (l # ls))
         = replicate (Suc (length ls)) (Some P)
     \<and> map (last_distance \<circ> fst) (run env init_state (l # ls))
         = replicate (Suc (length ls)) (Some d1)
     \<and> map (map snd \<circ> logged \<circ> snd) (run env init_state (l # ls))
         = replicate (Suc (length ls)) [P]"
proof -
  let ?st = "fst (step env init_state l)"
  note s = step_data_opens [OF assms(1) opens_init]
  have P: "session_path (log_dir env) d1 (clock env (Suc (clock_reads init_state))) = P"
    by (simp add: P_def init_state_def)
  have Pne: "P \<noteq> []"
    unfolding P_def by (rule session_path_nonempty)
  have first: "last_distance ?st = Some d1" "current_csv_log ?st = Some P"
    "created (snd (step env init_state l)) = [P]"
    "map snd (logged (snd (step env init_state l))) = [P]"
    using s(1,2,4,5) unfolding P by simp_all
  have rest: "\<forall>r\<in>set (run env ?st ls).
           last_distance (fst r) = Some d1 \<and> current_csv_log (fst r) = Some P
           \<and> created (snd r) = [] \<and> map snd (logged (snd r)) = [P]"
    using assms(2,3) first(1,2) Pne by (rule run_stays)
  then have "concat (map (created \<circ> snd) (run env ?st ls)) = []"
    by simp
  then have "concat (map (created \<circ> snd) (run env init_state (l # ls))) = [P]"
    using first(3) by simp
  moreover have "map (current_csv_log \<circ> fst) (run env ?st ls) = replicate (length ls) (Some P)"
    using rest by (intro map_const_on) (simp_all add: length_run)
  moreover have "map (last_distance \<circ> fst) (run env ?st ls) = replicate (length ls) (Some d1)"
    using rest by (intro map_const_on) (simp_all add: length_run)
  moreover have "map (map snd \<circ> logged \<circ> snd) (run env ?st ls) = replicate (length ls) [P]"
    using rest by (intro map_const_on) (simp_all add: length_run)
  ultimately show ?thesis
    using first by simp
qed

theorem non_increasing_readings_stay_in_first_session_witness:
  "data_reading (env0 noon) ''DATA,1,1,10.0,5,3,-50,9.5,7,0.0'' (Finite 10)
   \<and> data_reading (env0 noon) ''DATA,1,2,10.0,6,3,-50,9.5,8,0.0'' (Finite 10)
   \<and> data_reading (env0 noon) ''DATA,1,3,7.5,7,3,-50,9.5,9,0.0'' (Finite (15 / 2))
   \<and> fle (Finite 10) (Finite 10) \<and> fle (Finite (15 / 2)) (Finite 10)
   \<and> concat (map (created \<circ> snd) (run (env0 noon) init_state
        [''DATA,1,1,10.0,5,3,-50,9.5,7,0.0'', ''DATA,1,2,10.0,6,3,-50,9.5,8,0.0'',
         ''DATA,1,3,7.5,7,3,-50,9.5,9,0.0'']))
       = [''/home/pi/lora_data_logs/lora_data_10.00m_2025-03-14_12-00-01.csv'']
   \<and> map (current_csv_log \<circ> fst) (run (env0 noon) init_state
        [''DATA,1,1,10.0,5,3,-50,9.5,7,0.0'', ''DATA,1,2,10.0,6,3,-50,9.5,8,0.0'',
         ''DATA,1,3,7.5,7,3,-50,9.5,9,0.0''])
       = [Some ''/home/pi/lora_data_logs/lora_data_10.00m_2025-03-14_12-00-01.csv'',
          Some ''/home/pi/lora_data_logs/lora_data_10.00m_2025-03-14_12-00-01.csv'',
          Some ''/home/pi/lora_data_logs/lora_data_10.00m_2025-03-14_12-00-01.csv'']
   \<and> map (last_distance \<circ> fst) (run (env0 noon) init_state
        [''DATA,1,1,10.0,5,3,-50,9.5,7,0.0'', ''DATA,1,2,10.0,6,3,-50,9.5,8,0.0'',
         ''DATA,1,3,7.5,7,3,-50,9.5,9,0.0''])
       = [Some (Finite 10), Some (Finite 10), Some (Finite 10)]
   \<and> map (map snd \<circ> logged \<circ> snd) (run (env0 noon) init_state
        [''DATA,1,1,10.0,5,3,-50,9.5,7,0.0'', ''DATA,1,2,10.0,6,3,-50,9.5,8,0.0'',
         ''DATA,1,3,7.5,7,3,-50,9.5,9,0.0''])
       = [[''/home/pi/lora_data_logs/lora_data_10.00m_2025-03-14_12-00-01.csv''],
          [''/home/pi/lora_data_logs/lora_data_10.00m_2025-03-14_12-00-01.csv''],
          [''/home/pi/lora_data_logs/lora_data_10.00m_2025-03-14_12-00-01.csv'']]"
proof -
  let ?E = "env0 noon"
  have h1: "data_reading ?E ''DATA,1,1,10.0,5,3,-50,9.5,7,0.0'' (Finite 10)"
    by code_simp
  have r2: "data_reading ?E ''DATA,1,2,10.0,6,3,-50,9.5,8,0.0'' (Finite 10)"
    by code_simp
  have r3: "data_reading ?E ''DATA,1,3,7.5,7,3,-50,9.5,9,0.0'' (Finite (15 / 2))"
    by code_simp
  have f2: "fle (Finite 10) (Finite 10)" and f3: "fle (Finite (15 / 2)) (Finite 10)"
    by code_simp+
  have h2: "list_all2 (data_reading ?E)
        [''DATA,1,2,10.0,6,3,-50,9.5,8,0.0'', ''DATA,1,3,7.5,7,3,-50,9.5,9,0.0'']
        [Finite 10, Finite (15 / 2)]"
    using r2 r3 by simp
  have h3: "\<forall>d\<in>set [Finite 10, Finite (15 / 2)]. fle d (Finite 10)"
    using f2 f3 by simp
  have ev: "session_path (log_dir ?E) (Finite 10) (clock ?E 1)
      = ''/home/pi/lora_data_logs/lora_data_10.00m_2025-03-14_12-00-01.csv''"
    by code_simp
  have rep: "replicate (Suc (length [a, b])) x = [x, x, x]" for a b :: string and x :: 'a
    by simp
  show ?thesis
    using non_increasing_readings_stay_in_first_session [OF h1 h2 h3] h1 r2 r3 f2 f3
    unfolding ev rep by blast
qed

lemma logged_single:
  assumes "map snd (logged out) = [p]" and "fst ` set (logged out) \<subseteq> {r}"
  shows "logged out = [(r, p)]"
proof -
  from assms(1) obtain a where l: "logged out = [(a, p)]"
    by (cases "logged out") auto
  with assms(2) have "a = r" by simp
  with l show ?thesis by simp
qed

text \<open>
  C4. The readings 10.0, 10.0, 0.0, 15.0 from the start of the loop: two log files are
  created, for 10.0 at the first reading and for 15.0 at the fourth, they differ, the first
  three rows go to the first file, and the row of the 0.0 reading carries the lost count
  recorded at the second reading in place of its own.
\<close>

theorem scenario_10_10_0_15:
  assumes "data_reading env l1 (Finite 10)" and "data_reading env l2 (Finite 10)"
    and "data_reading env l3 (Finite 0)" and "data_reading env l4 (Finite 15)"
  defines "P10 \<equiv> session_path (log_dir env) (Finite 10) (clock env 1)"
    and "P15 \<equiv> session_path (log_dir env) (Finite 15) (clock env 5)"
    and "rs \<equiv> run env init_state [l1, l2, l3, l4]"
  shows "concat (map (created \<circ> snd) rs) = [P10, P15] \<and> P10 \<noteq> P15
     \<and> map (map snd \<circ> logged \<circ> snd) rs = [[P10], [P10], [P10], [P15]]
     \<and> logged (snd (rs ! 2))
         = [((fix_total (data_row (clock env 3) (split_on CHR '','' (strip l3))))
               \<lparr>Lost := str_int (parse_lost env (split_on CHR '','' (strip l2) ! 5))\<rparr>, P10)]"
proof -
  let ?st1 = "fst (step env init_state l1)"
  let ?st2 = "fst (step env ?st1 l2)"
  let ?st3 = "fst (step env ?st2 l3)"
  have rs: "rs = [step env init_state l1, step env ?st1 l2, step env ?st2 l3, step env ?st3 l4]"
    by (simp add: rs_def)
  \<comment> \<open>first reading\<close>
  note a = step_data_opens [OF assms(1) opens_init]
  have a1: "last_distance ?st1 = Some (Finite 10)" "current_csv_log ?st1 = Some P10"
    "clock_reads ?st1 = 2" "created (snd (step env init_state l1)) = [P10]"
    "map snd (logged (snd (step env init_state l1))) = [P10]"
    using a by (simp_all add: P10_def init_state_def)
  have P10: "P10 \<noteq> []"
    unfolding P10_def by (rule session_path_nonempty)
  \<comment> \<open>second reading\<close>
  have n2: "\<not> opens ?st1 (Finite 10)"
    by (simp add: opens_def a1(1) flt_irrefl)
  note b = step_data_stays [OF assms(2) n2]
  have t2: "\<not> transient_zero (last_distance ?st1) (Finite 10)"
    by (simp add: transient_zero_def a1(1) feq_def)
  have b1: "last_distance ?st2 = Some (Finite 10)" "current_csv_log ?st2 = Some P10"
    "clock_reads ?st2 = 3" "created (snd (step env ?st1 l2)) = []"
    "map snd (logged (snd (step env ?st1 l2))) = [P10]"
    using b P10 by (simp_all add: a1)
  have b2: "last_lost ?st2 = Some (parse_lost env (split_on CHR '','' (strip l2) ! 5))"
    using step_data_rows(1) [OF assms(2), of ?st1] t2 by simp
  \<comment> \<open>third reading\<close>
  have n3: "\<not> opens ?st2 (Finite 0)"
    by (simp add: opens_def b1(1) flt_def)
  note c = step_data_stays [OF assms(3) n3]
  have t3: "transient_zero (last_distance ?st2) (Finite 0)"
    by (simp add: transient_zero_def b1(1) feq_def fne_def)
  have c1: "last_distance ?st3 = Some (Finite 10)" "current_csv_log ?st3 = Some P10"
    "clock_reads ?st3 = 4" "created (snd (step env ?st2 l3)) = []"
    "map snd (logged (snd (step env ?st2 l3))) = [P10]"
    using c P10 by (simp_all add: b1)
  have "fst ` set (logged (snd (step env ?st2 l3)))
      \<subseteq> {(fix_total (data_row (clock env 3) (split_on CHR '','' (strip l3))))
            \<lparr>Lost := str_int (parse_lost env (split_on CHR '','' (strip l2) ! 5))\<rparr>}"
    using step_data_rows(2) [OF assms(3), of ?st2] t3 by (simp add: b1(3) b2)
  with c1(5) have c2: "logged (snd (step env ?st2 l3))
      = [((fix_total (data_row (clock env 3) (split_on CHR '','' (strip l3))))
            \<lparr>Lost := str_int (parse_lost env (split_on CHR '','' (strip l2) ! 5))\<rparr>, P10)]"
    by (rule logged_single)
  \<comment> \<open>fourth reading\<close>
  have o4: "opens ?st3 (Finite 15)"
    by (simp add: opens_def c1(1) flt_def)
  note d = step_data_opens [OF assms(4) o4]
  have d1: "created (snd (step env ?st3 l4)) = [P15]"
    "map snd (logged (snd (step env ?st3 l4))) = [P15]"
    using d(4,5) by (simp_all add: P15_def c1(3))
  have "fmt2 (Finite 10) \<noteq> fmt2 (Finite 15)"
    by code_simp
  then have ne: "P10 \<noteq> P15"
    by (simp add: P10_def P15_def session_path_eq_iff)
  have "concat (map (created \<circ> snd) rs) = [P10, P15]"
    by (simp add: rs a1(4) b1(4) c1(4) d1(1))
  moreover have "map (map snd \<circ> logged \<circ> snd) rs = [[P10], [P10], [P10], [P15]]"
    by (simp add: rs a1(5) b1(5) c1(5) d1(2))
  moreover have "logged (snd (rs ! 2))
         = [((fix_total (data_row (clock env 3) (split_on CHR '','' (strip l3))))
               \<lparr>Lost := str_int (parse_lost env (split_on CHR '','' (strip l2) ! 5))\<rparr>, P10)]"
    using c2 by (simp add: rs)
  ultimately show ?thesis
    using ne by blast
qed


theorem scenario_10_10_0_15_witness:
  "data_reading (env0 noon) ''DATA,1,1,10.0,5,0,-50,9.5,5,0.0'' (Finite 10)
   \<and> data_reading (env0 noon) ''DATA,1,2,10.0,6,4,-50,9.5,10,0.4'' (Finite 10)
   \<and> data_reading (env0 noon) ''DATA,1,3,0.0,7,0,-50,9.5,11,0.0'' (Finite 0)
   \<and> data_reading (env0 noon) ''DATA,1,4,15.0,8,4,-50,9.5,12,0.3'' (Finite 15)
   \<and> concat (map (created \<circ> snd) (run (env0 noon) init_state
       [''DATA,1,1,10.0,5,0,-50,9.5,5,0.0'',
        ''DATA,1,2,10.0,6,4,-50,9.5,10,0.4'',
        ''DATA,1,3,0.0,7,0,-50,9.5,11,0.0'',
        ''DATA,1,4,15.0,8,4,-50,9.5,12,0.3''])) = [''/home/pi/lora_data_logs/lora_data_10.00m_2025-03-14_12-00-01.csv'',
          ''/home/pi/lora_data_logs/lora_data_15.00m_2025-03-14_12-00-05.csv'']
   \<and> map (map snd \<circ> logged \<circ> snd) (run (env0 noon) init_state
       [''DATA,1,1,10.0,5,0,-50,9.5,5,0.0'',
        ''DATA,1,2,10.0,6,4,-50,9.5,10,0.4'',
        ''DATA,1,3,0.0,7,0,-50,9.5,11,0.0'',
        ''DATA,1,4,15.0,8,4,-50,9.5,12,0.3''])
     = [[''/home/pi/lora_data_logs/lora_data_10.00m_2025-03-14_12-00-01.csv''],
        [''/home/pi/lora_data_logs/lora_data_10.00m_2025-03-14_12-00-01.csv''],
        [''/home/pi/lora_data_logs/lora_data_10.00m_2025-03-14_12-00-01.csv''],
        [''/home/pi/lora_data_logs/lora_data_15.00m_2025-03-14_12-00-05.csv'']]
   \<and> logged (snd (run (env0 noon) init_state
       [''DATA,1,1,10.0,5,0,-50,9.5,5,0.0'',
        ''DATA,1,2,10.0,6,4,-50,9.5,10,0.4'',
        ''DATA,1,3,0.0,7,0,-50,9.5,11,0.0'',
        ''DATA,1,4,15.0,8,4,-50,9.5,12,0.3''] ! 2))
     = [(\<lparr>Timestamp = ''2025-03-14 12:00:03'', Event = ''DATA'', MessageNumber = ''3'',
             Distance_m = ''0.0'', Received = ''7'', Lost = ''4'', RSSI = ''-50'', SNR = ''9.5'',
             TotalPackets = ''11'', LossRate = ''0.0''\<rparr>,
         ''/home/pi/lora_data_logs/lora_data_10.00m_2025-03-14_12-00-01.csv'')]"
proof -
  let ?E = "env0 noon"
  have h1: "data_reading ?E ''DATA,1,1,10.0,5,0,-50,9.5,5,0.0'' (Finite 10)"
    by code_simp
  have h2: "data_reading ?E ''DATA,1,2,10.0,6,4,-50,9.5,10,0.4'' (Finite 10)"
    by code_simp
  have h3: "data_reading ?E ''DATA,1,3,0.0,7,0,-50,9.5,11,0.0'' (Finite 0)"
    by code_simp
  have h4: "data_reading ?E ''DATA,1,4,15.0,8,4,-50,9.5,12,0.3'' (Finite 15)"
    by code_simp
  have ev: "session_path (log_dir ?E) (Finite 10) (clock ?E 1) = ''/home/pi/lora_data_logs/lora_data_10.00m_2025-03-14_12-00-01.csv''"
    "session_path (log_dir ?E) (Finite 15) (clock ?E 5) = ''/home/pi/lora_data_logs/lora_data_15.00m_2025-03-14_12-00-05.csv''"
    "(fix_total (data_row (clock ?E 3) (split_on CHR '','' (strip ''DATA,1,3,0.0,7,0,-50,9.5,11,0.0''))))
       \<lparr>Lost := str_int (parse_lost ?E (split_on CHR '','' (strip ''DATA,1,2,10.0,6,4,-50,9.5,10,0.4'') ! 5))\<rparr>
     = \<lparr>Timestamp = ''2025-03-14 12:00:03'', Event = ''DATA'', MessageNumber = ''3'',
             Distance_m = ''0.0'', Received = ''7'', Lost = ''4'', RSSI = ''-50'', SNR = ''9.5'',
             TotalPackets = ''11'', LossRate = ''0.0''\<rparr>"
    by code_simp+
  have "concat (map (created \<circ> snd) (run (env0 noon) init_state
       [''DATA,1,1,10.0,5,0,-50,9.5,5,0.0'',
        ''DATA,1,2,10.0,6,4,-50,9.5,10,0.4'',
        ''DATA,1,3,0.0,7,0,-50,9.5,11,0.0'',
        ''DATA,1,4,15.0,8,4,-50,9.5,12,0.3''])) = [''/home/pi/lora_data_logs/lora_data_10.00m_2025-03-14_12-00-01.csv'',
          ''/home/pi/lora_data_logs/lora_data_15.00m_2025-03-14_12-00-05.csv'']
   \<and> map (map snd \<circ> logged \<circ> snd) (run (env0 noon) init_state
       [''DATA,1,1,10.0,5,0,-50,9.5,5,0.0'',
        ''DATA,1,2,10.0,6,4,-50,9.5,10,0.4'',
        ''DATA,1,3,0.0,7,0,-50,9.5,11,0.0'',
        ''DATA,1,4,15.0,8,4,-50,9.5,12,0.3''])
     = [[''/home/pi/lora_data_logs/lora_data_10.00m_2025-03-14_12-00-01.csv''],
        [''/home/pi/lora_data_logs/lora_data_10.00m_2025-03-14_12-00-01.csv''],
        [''/home/pi/lora_data_logs/lora_data_10.00m_2025-03-14_12-00-01.csv''],
        [''/home/pi/lora_data_logs/lora_data_15.00m_2025-03-14_12-00-05.csv'']]
   \<and> logged (snd (run (env0 noon) init_state
       [''DATA,1,1,10.0,5,0,-50,9.5,5,0.0'',
        ''DATA,1,2,10.0,6,4,-50,9.5,10,0.4'',
        ''DATA,1,3,0.0,7,0,-50,9.5,11,0.0'',
        ''DATA,1,4,15.0,8,4,-50,9.5,12,0.3''] ! 2))
     = [(\<lparr>Timestamp = ''2025-03-14 12:00:03'', Event = ''DATA'', MessageNumber = ''3'',
             Distance_m = ''0.0'', Received = ''7'', Lost = ''4'', RSSI = ''-50'', SNR = ''9.5'',
             TotalPackets = ''11'', LossRate = ''0.0''\<rparr>,
         ''/home/pi/lora_data_logs/lora_data_10.00m_2025-03-14_12-00-01.csv'')]"
    using scenario_10_10_0_15 [OF h1 h2 h3 h4] unfolding ev by blast
  with h1 h2 h3 h4 show ?thesis
    by blast
qed

lemma run_opens_each:
  assumes "list_all2 (data_reading env) ls ds" and "sorted_wrt flt ds"
    and "\<forall>d\<in>set ds. opens st d"
  shows "map (last_distance \<circ> fst) (run env st ls) = map Some ds
     \<and> map (current_csv_log \<circ> fst) (run env st ls)
         = map (\<lambda>i. Some (session_path (log_dir env) (ds ! i)
                              (clock env (clock_reads st + 2 * i + 1)))) [0..<length ds]
     \<and> map (created \<circ> snd) (run env st ls)
         = map (\<lambda>i. [session_path (log_dir env) (ds ! i)
                        (clock env (clock_reads st + 2 * i + 1))]) [0..<length ds]
     \<and> map (map snd \<circ> logged \<circ> snd) (run env st ls)
         = map (\<lambda>i. [session_path (log_dir env) (ds ! i)
                        (clock env (clock_reads st + 2 * i + 1))]) [0..<length ds]"
  using assms
proof (induction ls ds arbitrary: st rule: list_all2_induct)
  case Nil
  then show ?case by simp
next
  case (Cons l ls d ds)
  let ?st = "fst (step env st l)"
  have o: "opens st d"
    using Cons.prems(2) by simp
  note s = step_data_opens [OF Cons.hyps(1) o]
  have "\<forall>e\<in>set ds. opens ?st e"
    using Cons.prems(1) by (simp add: opens_def s(1))
  moreover have "sorted_wrt flt ds"
    using Cons.prems(1) by simp
  ultimately have IH: "map (last_distance \<circ> fst) (run env ?st ls) = map Some ds
     \<and> map (current_csv_log \<circ> fst) (run env ?st ls)
         = map (\<lambda>i. Some (session_path (log_dir env) (ds ! i)
                              (clock env (clock_reads ?st + 2 * i + 1)))) [0..<length ds]
     \<and> map (created \<circ> snd) (run env ?st ls)
         = map (\<lambda>i. [session_path (log_dir env) (ds ! i)
                        (clock env (clock_reads ?st + 2 * i + 1))]) [0..<length ds]
     \<and> map (map snd \<circ> logged \<circ> snd) (run env ?st ls)
         = map (\<lambda>i. [session_path (log_dir env) (ds ! i)
                        (clock env (clock_reads ?st + 2 * i + 1))]) [0..<length ds]"
    by (intro Cons.IH)
  have idx: "clock_reads ?st + 2 * i + 1 = clock_reads st + 2 * Suc i + 1" for i
    by (simp add: s(3))
  show ?case
    using IH unfolding idx
    by (simp add: s map_upt_Suc comp_def del: upt_Suc)
qed


text \<open>
  C1, as the program has it. Well-formed readings with strictly increasing distances, from the
  start of the loop: each one sets the last distance to its distance and the log file to the
  path made of the log directory, the distance rendered with two decimals and the clock
  rendered to the second (the clock is read twice for each such reading, the second time for
  the file name), creates that file and logs its row there. Two of these paths are equal
  exactly when the two renderings of the distances and the two renderings of the clock are
  equal; so a new path differs from every earlier one whose distance text or timestamp text
  differs.
\<close>

theorem increasing_readings_open_sessions:
  assumes "list_all2 (data_reading env) ls ds" and "sorted_wrt flt ds"
  defines "path \<equiv> \<lambda>i. session_path (log_dir env) (ds ! i) (clock env (2 * i + 1))"
  shows "map (last_distance \<circ> fst) (run env init_state ls) = map Some ds
     \<and> map (current_csv_log \<circ> fst) (run env init_state ls)
         = map (\<lambda>i. Some (path i)) [0..<length ds]
     \<and> map (created \<circ> snd) (run env init_state ls) = map (\<lambda>i. [path i]) [0..<length ds]
     \<and> map (map snd \<circ> logged \<circ> snd) (run env init_state ls)
         = map (\<lambda>i. [path i]) [0..<length ds]
     \<and> (\<forall>i<length ds. \<forall>j<length ds.
           path i = path j \<longleftrightarrow>
             fmt2 (ds ! i) = fmt2 (ds ! j)
             \<and> strftime_file (clock env (2 * i + 1)) = strftime_file (clock env (2 * j + 1)))"
proof -
  have "\<forall>d\<in>set ds. opens init_state d"
    by (simp add: opens_init)
  from run_opens_each [OF assms(1,2) this]
  have "map (last_distance \<circ> fst) (run env init_state ls) = map Some ds
     \<and> map (current_csv_log \<circ> fst) (run env init_state ls)
         = map (\<lambda>i. Some (path i)) [0..<length ds]
     \<and> map (created \<circ> snd) (run env init_state ls) = map (\<lambda>i. [path i]) [0..<length ds]
     \<and> map (map snd \<circ> logged \<circ> snd) (run env init_state ls)
         = map (\<lambda>i. [path i]) [0..<length ds]"
    by (simp add: path_def init_state_def)
  then show ?thesis
    by (simp add: path_def session_path_eq_iff)
qed

theorem increasing_readings_open_sessions_witness:
  "data_reading (env0 noon) ''DATA,1,1,10.0,5,0,-50,9.5,5,0.0'' (Finite 10)
   \<and> data_reading (env0 noon) ''DATA,1,2,10.00390625,6,0,-50,9.5,6,0.0'' (Finite (2561 / 256))
   \<and> data_reading (env0 noon) ''DATA,1,3,15.0,7,0,-50,9.5,7,0.0'' (Finite 15)
   \<and> flt (Finite 10) (Finite (2561 / 256)) \<and> flt (Finite 10) (Finite 15)
   \<and> flt (Finite (2561 / 256)) (Finite 15)
   \<and> map (last_distance \<circ> fst) (run (env0 noon) init_state
        [''DATA,1,1,10.0,5,0,-50,9.5,5,0.0'', ''DATA,1,2,10.00390625,6,0,-50,9.5,6,0.0'',
         ''DATA,1,3,15.0,7,0,-50,9.5,7,0.0''])
       = [Some (Finite 10), Some (Finite (2561 / 256)), Some (Finite 15)]
   \<and> map (current_csv_log \<circ> fst) (run (env0 noon) init_state
        [''DATA,1,1,10.0,5,0,-50,9.5,5,0.0'', ''DATA,1,2,10.00390625,6,0,-50,9.5,6,0.0'',
         ''DATA,1,3,15.0,7,0,-50,9.5,7,0.0''])
       = [Some ''/home/pi/lora_data_logs/lora_data_10.00m_2025-03-14_12-00-01.csv'',
          Some ''/home/pi/lora_data_logs/lora_data_10.00m_2025-03-14_12-00-03.csv'',
          Some ''/home/pi/lora_data_logs/lora_data_15.00m_2025-03-14_12-00-05.csv'']"
proof -
  let ?E = "env0 noon"
  let ?ds = "[Finite 10, Finite (2561 / 256), Finite 15]"
  have r1: "data_reading ?E ''DATA,1,1,10.0,5,0,-50,9.5,5,0.0'' (Finite 10)"
    by code_simp
  have r2: "data_reading ?E ''DATA,1,2,10.00390625,6,0,-50,9.5,6,0.0'' (Finite (2561 / 256))"
    by code_simp
  have r3: "data_reading ?E ''DATA,1,3,15.0,7,0,-50,9.5,7,0.0'' (Finite 15)"
    by code_simp
  have f: "flt (Finite 10) (Finite (2561 / 256))" "flt (Finite 10) (Finite 15)"
    "flt (Finite (2561 / 256)) (Finite 15)"
    by code_simp+
  have h1: "list_all2 (data_reading ?E)
      [''DATA,1,1,10.0,5,0,-50,9.5,5,0.0'', ''DATA,1,2,10.00390625,6,0,-50,9.5,6,0.0'',
       ''DATA,1,3,15.0,7,0,-50,9.5,7,0.0''] ?ds"
    using r1 r2 r3 by simp
  have h2: "sorted_wrt flt ?ds"
    using f by simp
  have ev: "map (\<lambda>i. Some (session_path (log_dir ?E) (?ds ! i) (clock ?E (2 * i + 1))))
        [0..<length ?ds]
      = [Some ''/home/pi/lora_data_logs/lora_data_10.00m_2025-03-14_12-00-01.csv'',
         Some ''/home/pi/lora_data_logs/lora_data_10.00m_2025-03-14_12-00-03.csv'',
         Some ''/home/pi/lora_data_logs/lora_data_15.00m_2025-03-14_12-00-05.csv'']"
    by code_simp
  note t = increasing_readings_open_sessions [OF h1 h2]
  have a: "map (last_distance \<circ> fst) (run ?E init_state
        [''DATA,1,1,10.0,5,0,-50,9.5,5,0.0'', ''DATA,1,2,10.00390625,6,0,-50,9.5,6,0.0'',
         ''DATA,1,3,15.0,7,0,-50,9.5,7,0.0'']) = map Some ?ds"
    using t by blast
  have "map (current_csv_log \<circ> fst) (run ?E init_state
        [''DATA,1,1,10.0,5,0,-50,9.5,5,0.0'', ''DATA,1,2,10.00390625,6,0,-50,9.5,6,0.0'',
         ''DATA,1,3,15.0,7,0,-50,9.5,7,0.0''])
      = map (\<lambda>i. Some (session_path (log_dir ?E) (?ds ! i) (clock ?E (2 * i + 1))))
          [0..<length ?ds]"
    using t by blast
  then have b: "map (current_csv_log \<circ> fst) (run ?E init_state
        [''DATA,1,1,10.0,5,0,-50,9.5,5,0.0'', ''DATA,1,2,10.00390625,6,0,-50,9.5,6,0.0'',
         ''DATA,1,3,15.0,7,0,-50,9.5,7,0.0''])
      = [Some ''/home/pi/lora_data_logs/lora_data_10.00m_2025-03-14_12-00-01.csv'',
         Some ''/home/pi/lora_data_logs/lora_data_10.00m_2025-03-14_12-00-03.csv'',
         Some ''/home/pi/lora_data_logs/lora_data_15.00m_2025-03-14_12-00-05.csv'']"
    unfolding ev .
  from a have a': "map (last_distance \<circ> fst) (run ?E init_state
        [''DATA,1,1,10.0,5,0,-50,9.5,5,0.0'', ''DATA,1,2,10.00390625,6,0,-50,9.5,6,0.0'',
         ''DATA,1,3,15.0,7,0,-50,9.5,7,0.0''])
       = [Some (Finite 10), Some (Finite (2561 / 256)), Some (Finite 15)]"
    by simp
  from r1 r2 r3 f a' b show ?thesis
    by blast
qed

text \<open>
  The claim as worded, that each new identity differs from every earlier one, fails when two
  readings whose distances render to the same two decimals are processed within one second
  of the clock: 10.0 and 10.00390625 both give \<^verbatim>\<open>10.00\<close>, and the second reading's file is the
  first reading's file.
\<close>

theorem increasing_readings_same_identity_counterexample:
  "data_reading (env0 same_second) ''DATA,1,1,10.0,5,0,-50,9.5,5,0.0'' (Finite 10)
   \<and> data_reading (env0 same_second) ''DATA,1,2,10.00390625,6,0,-50,9.5,6,0.0'' (Finite (2561 / 256))
   \<and> flt (Finite 10) (Finite (2561 / 256))
   \<and> map (current_csv_log \<circ> fst) (run (env0 same_second) init_state
        [''DATA,1,1,10.0,5,0,-50,9.5,5,0.0'', ''DATA,1,2,10.00390625,6,0,-50,9.5,6,0.0''])
       = [Some ''/home/pi/lora_data_logs/lora_data_10.00m_2025-03-14_12-00-00.csv'',
          Some ''/home/pi/lora_data_logs/lora_data_10.00m_2025-03-14_12-00-00.csv'']
   \<and> map (created \<circ> snd) (run (env0 same_second) init_state
        [''DATA,1,1,10.0,5,0,-50,9.5,5,0.0'', ''DATA,1,2,10.00390625,6,0,-50,9.5,6,0.0''])
       = [[''/home/pi/lora_data_logs/lora_data_10.00m_2025-03-14_12-00-00.csv''],
          [''/home/pi/lora_data_logs/lora_data_10.00m_2025-03-14_12-00-00.csv'']]"
  by code_simp

section \<open>The two-decimal text of a distance\<close>

lemma digit_char_inj:
  assumes "i < 10" and "j < 10" and "digit_char i = digit_char j"
  shows "i = j"
proof -
  have "distinct ''0123456789''"
    by simp
  moreover have "i mod 10 < length ''0123456789''" and "j mod 10 < length ''0123456789''"
    by simp_all
  ultimately have "i mod 10 = j mod 10"
    using assms(3) unfolding digit_char_def by (simp only: nth_eq_iff_index_eq)
  with assms(1,2) show ?thesis by simp
qed

lemma str_nat_unfold:
  "str_nat n = (if n < 10 then [] else str_nat (n div 10)) @ [digit_char (n mod 10)]"
proof (cases "n < 10")
  case True
  then have "str_nat n = [digit_char n]"
    by (subst str_nat.simps) simp
  moreover have "digit_char (n mod 10) = digit_char n"
    using True by simp
  ultimately show ?thesis
    using True by simp
next
  case False
  then have "str_nat n = str_nat (n div 10) @ [digit_char (n mod 10)]"
    by (subst str_nat.simps) simp
  then show ?thesis
    using False by simp
qed

lemma str_nat_nonempty: "str_nat n \<noteq> []"
  by (subst str_nat_unfold) simp

lemma str_nat_inj: "str_nat n = str_nat m \<Longrightarrow> n = m"
proof (induction n arbitrary: m rule: str_nat.induct)
  case (1 n)
  let ?pn = "if n < 10 then [] else str_nat (n div 10)"
  let ?pm = "if m < 10 then [] else str_nat (m div 10)"
  have "?pn @ [digit_char (n mod 10)] = ?pm @ [digit_char (m mod 10)]"
    using "1.prems" str_nat_unfold [of n] str_nat_unfold [of m] by simp
  then have pre: "?pn = ?pm" and dig: "digit_char (n mod 10) = digit_char (m mod 10)"
    by simp_all
  have m10: "n mod 10 = m mod 10"
    using dig by (intro digit_char_inj) simp_all
  show ?case
  proof (cases "n < 10")
    case True
    with pre have "m < 10"
      using str_nat_nonempty [of "m div 10"] by (auto split: if_splits)
    with True m10 show ?thesis by simp
  next
    case False
    with pre have m: "\<not> m < 10"
      using str_nat_nonempty [of "n div 10"] by (auto split: if_splits)
    with False pre have "str_nat (n div 10) = str_nat (m div 10)"
      by simp
    then have "n div 10 = m div 10"
      using False by (intro "1.IH") simp_all
    with m10 show ?thesis
      by (metis div_mult_mod_eq)
  qed
qed

lemma pad2_two: "m < 100 \<Longrightarrow> pad2 m = [digit_char (m div 10), digit_char (m mod 10)]"
proof (cases "m < 10")
  case True
  then have "str_nat m = [digit_char (m mod 10)]"
    by (subst str_nat_unfold) simp
  moreover have "digit_char (m div 10) = CHR ''0''"
    using True by (simp add: digit_char_def)
  ultimately show ?thesis
    using True by (simp add: pad2_def)
next
  case False
  assume "m < 100"
  then have "m div 10 < 10"
    by simp
  then have "str_nat (m div 10) = [digit_char (m div 10)]"
    by (subst str_nat_unfold) simp
  then have "str_nat m = [digit_char (m div 10), digit_char (m mod 10)]"
    using False by (subst str_nat_unfold) simp
  then show ?thesis
    using False by (simp add: pad2_def)
qed

lemma pad2_inj:
  assumes "m < 100" and "k < 100" and "pad2 m = pad2 k"
  shows "m = k"
proof -
  from assms have "digit_char (m div 10) = digit_char (k div 10)"
    and "digit_char (m mod 10) = digit_char (k mod 10)"
    by (simp_all add: pad2_two)
  then have "m div 10 = k div 10" and "m mod 10 = k mod 10"
    using assms(1,2) by (auto intro: digit_char_inj)
  then show ?thesis
    by (metis div_mult_mod_eq)
qed






















section \<open>Sessions are not reopened\<close>
















text \<open>
  The file-name text of a calendar time determines its fields, so a clock that is not set
  back never shows an earlier timestamp text again.
\<close>

lemma dt_le_antisym:
  assumes "dt_le a b" and "dt_le b a"
  shows "year a = year b \<and> month a = month b \<and> day a = day b \<and> hour a = hour b
     \<and> minute a = minute b \<and> second a = second b"
  using assms unfolding dt_le_def by linarith

lemma strftime_file_cong:
  assumes "year a = year b" and "month a = month b" and "day a = day b" and "hour a = hour b"
    and "minute a = minute b" and "second a = second b"
  shows "strftime_file a = strftime_file b"
  using assms by (simp add: strftime_file_def)

lemma strftime_file_inj:
  assumes "is_datetime a" and "is_datetime b" and "strftime_file a = strftime_file b"
  shows "year a = year b \<and> month a = month b \<and> day a = day b \<and> hour a = hour b
     \<and> minute a = minute b \<and> second a = second b"
proof -
  have a: "month a < 100" "day a < 100" "hour a < 100" "minute a < 100" "second a < 100"
    using assms(1) by (simp_all add: is_datetime_def)
  have b: "month b < 100" "day b < 100" "hour b < 100" "minute b < 100" "second b < 100"
    using assms(2) by (simp_all add: is_datetime_def)
  let ?tail = "\<lambda>t. CHR ''-'' # pad2 (month t) @ CHR ''-'' # pad2 (day t) @ CHR ''_'' # pad2 (hour t)
                  @ CHR ''-'' # pad2 (minute t) @ CHR ''-'' # pad2 (second t)"
  have len: "length (?tail a) = length (?tail b)"
    using a b by (simp add: pad2_two)
  have "str_nat (year a) @ ?tail a = str_nat (year b) @ ?tail b"
    using assms(3) by (simp add: strftime_file_def)
  then have yt: "str_nat (year a) = str_nat (year b) \<and> ?tail a = ?tail b"
    by (rule iffD1 [OF append_eq_append_conv [OF disjI2 [OF len]]])
  then have y: "str_nat (year a) = str_nat (year b)" and t: "?tail a = ?tail b"
    by blast+
  from t have "pad2 (month a) = pad2 (month b)" "pad2 (day a) = pad2 (day b)"
    "pad2 (hour a) = pad2 (hour b)" "pad2 (minute a) = pad2 (minute b)"
    "pad2 (second a) = pad2 (second b)"
    using a b by (simp_all add: pad2_two)
  then have "month a = month b" "day a = day b" "hour a = hour b" "minute a = minute b"
    "second a = second b"
    using a b by (auto intro: pad2_inj)
  moreover have "year a = year b"
    using y by (rule str_nat_inj)
  ultimately show ?thesis by simp
qed

lemma clock_not_set_back_steady:
  assumes "clock_not_set_back env"
  shows "steady_clock env"
  unfolding steady_clock_def
proof (intro allI impI)
  fix i j k
  assume h: "i \<le> j \<and> j \<le> k \<and> strftime_file (clock env i) = strftime_file (clock env k)"
  from assms have v: "is_datetime (clock env i)" "is_datetime (clock env k)"
    and ij: "dt_le (clock env i) (clock env j)" and jk: "dt_le (clock env j) (clock env k)"
    using h by (simp_all add: clock_not_set_back_def)
  note e = strftime_file_inj [OF v conjunct2 [OF conjunct2 [OF h]]]
  have "dt_le (clock env j) (clock env i)"
    using jk e by (simp add: dt_le_def)
  with ij have "year (clock env i) = year (clock env j) \<and> month (clock env i) = month (clock env j)
     \<and> day (clock env i) = day (clock env j) \<and> hour (clock env i) = hour (clock env j)
     \<and> minute (clock env i) = minute (clock env j) \<and> second (clock env i) = second (clock env j)"
    by (rule dt_le_antisym)
  then show "strftime_file (clock env j) = strftime_file (clock env i)"
    by (intro strftime_file_cong) simp_all
qed




end
